theory Spec2Isabelle
  imports Main "HOL-Library.Sublist"
begin

section \<open>Exceptions and the external services\<close>

text \<open>
  The program is one Python file, \<^verbatim>\<open>app.py\<close>. It parses source text with \<^verbatim>\<open>ast.parse\<close>,
  walks the tree with five detectors and two estimators (\<^verbatim>\<open>analyze_code\<close>), and rewrites
  one top-level idiom (\<^verbatim>\<open>auto_refactor\<close>). A Python exception is a value of \<open>exn\<close>, and a
  computation that may raise returns \<open>exn + 'a\<close> with \<open>Inl\<close> for the exception.
  \<open>SyntaxError\<close> carries \<^verbatim>\<open>str(e)\<close>; \<open>OtherError\<close> stands for every exception class the
  program neither raises itself nor names in an \<^verbatim>\<open>except\<close> clause.
\<close>

datatype exn = SyntaxError string | IndexError | OtherError string

definition bind :: "exn + 'a \<Rightarrow> ('a \<Rightarrow> exn + 'b) \<Rightarrow> exn + 'b" where
  "bind m f = (case m of Inl e \<Rightarrow> Inl e | Inr x \<Rightarrow> f x)"

text \<open>\<^verbatim>\<open>xs[i]\<close> for an index that is not negative: Python raises IndexError out of range.\<close>

definition subscript :: "'a list \<Rightarrow> nat \<Rightarrow> exn + 'a" where
  "subscript xs i = (if i < length xs then Inr (xs ! i) else Inl IndexError)"

section \<open>The syntax tree\<close>

text \<open>
  The tree of Python's \<^verbatim>\<open>ast\<close> module, as one tagged union: every node is an \<^verbatim>\<open>ast.AST\<close>
  and the program tells the classes apart with \<^verbatim>\<open>isinstance\<close>, here the discriminators
  \<open>is_Assign\<close>, \<open>is_For\<close>, ... The classes the program names are constructors with the
  fields of the class in their declared order; \<open>Other\<close> is a node of any other class
  (FunctionDef, Return, BinOp, Tuple, AsyncFor, ...), given by the class name, the line
  and the child nodes in field order. Operator and context nodes (\<^verbatim>\<open>ast.Add\<close>, \<^verbatim>\<open>ast.In\<close>,
  \<^verbatim>\<open>ast.Load\<close>, \<^verbatim>\<open>ast.Store\<close>) are leaves that no visitor of the program handles; operators
  are enumerations and contexts are left out. Selectors carry the names of the Python
  attributes (\<open>id'\<close>, \<open>value'\<close> and \<open>keywords'\<close> for \<^verbatim>\<open>id\<close>, \<^verbatim>\<open>value\<close> and \<^verbatim>\<open>keywords\<close>).
\<close>

datatype operator = Add | Sub | Mult | Div | OtherOperator string

datatype cmpop = Eq | NotEq | Lt | LtE | Gt | GtE | Is | IsNot | In | NotIn

datatype node =
    Module (body: "node list")
  | Assign (lineno: int) (targets: "node list") (value': node)
  | AugAssign (lineno: int) (target: node) (op: operator) (value': node)
  | For (lineno: int) (target: node) (iter: node) (body: "node list") (orelse: "node list")
  | While (lineno: int) (test: node) (body: "node list") (orelse: "node list")
  | If (lineno: int) (test: node) (body: "node list") (orelse: "node list")
  | Expr (lineno: int) (value': node)
  | Call (lineno: int) (func: node) (args: "node list") (keywords': "node list")
  | keyword (lineno: int) (arg: "string option") (value': node)
  | Attribute (lineno: int) (value': node) (attr: string)
  | Name (lineno: int) (id': string)
  | Constant (lineno: int) (repr: string)
  | List (lineno: int) (elts: "node list")
  | Compare (lineno: int) (left: node) (ops: "cmpop list") (comparators: "node list")
  | ListComp (lineno: int) (elt: node) (generators: "node list")
  | comprehension (target: node) (iter: node) (ifs: "node list") (is_async: int)
  | Other (kind: string) (lineno: int) (children: "node list")

text \<open>\<^verbatim>\<open>ast.iter_child_nodes\<close>: the child nodes, field by field, list fields in order.\<close>

fun iter_child_nodes :: "node \<Rightarrow> node list" where
  "iter_child_nodes (Module b) = b"
| "iter_child_nodes (Assign _ ts v) = ts @ [v]"
| "iter_child_nodes (AugAssign _ t _ v) = [t, v]"
| "iter_child_nodes (For _ t i b e) = [t, i] @ b @ e"
| "iter_child_nodes (While _ t b e) = [t] @ b @ e"
| "iter_child_nodes (If _ t b e) = [t] @ b @ e"
| "iter_child_nodes (Expr _ v) = [v]"
| "iter_child_nodes (Call _ f as ks) = [f] @ as @ ks"
| "iter_child_nodes (keyword _ _ v) = [v]"
| "iter_child_nodes (Attribute _ v _) = [v]"
| "iter_child_nodes (Name _ _) = []"
| "iter_child_nodes (Constant _ _) = []"
| "iter_child_nodes (List _ es) = es"
| "iter_child_nodes (Compare _ l _ cs) = [l] @ cs"
| "iter_child_nodes (ListComp _ e gs) = [e] @ gs"
| "iter_child_nodes (comprehension t i fs _) = [t, i] @ fs"
| "iter_child_nodes (Other _ _ cs) = cs"

text \<open>
  The nodes in the order in which an \<^verbatim>\<open>ast.NodeVisitor\<close> reaches them when every handler
  ends with \<^verbatim>\<open>self.generic_visit(node)\<close>, as all handlers of the program do: the node, then
  its children from left to right, each with its own subtree.
\<close>

function preorder :: "node \<Rightarrow> node list" where
  "preorder n = n # concat (map preorder (iter_child_nodes n))"
  by pat_completeness auto
termination
proof (relation "measure size")
  fix n c :: node
  assume "c \<in> set (iter_child_nodes n)"
  then have "size c < size n"
    by (cases n)
      (auto simp: less_Suc_eq_le
        dest!: size_list_estimation'[where f = size and y = "size c", OF _ order_refl])
  then show "(c, n) \<in> measure size" by simp
qed simp

declare preorder.simps [simp del]

text \<open>
  A visitor run: the handler of the node's class appends its findings to \<^verbatim>\<open>results\<close>, then
  the children are visited. \<open>collect\<close> runs a handler over a sequence and joins the
  findings; the first exception ends the run.
\<close>

fun collect :: "('x \<Rightarrow> exn + 'a list) \<Rightarrow> 'x list \<Rightarrow> exn + 'a list" where
  "collect h [] = Inr []"
| "collect h (x # xs) = bind (h x) (\<lambda>r. bind (collect h xs) (\<lambda>rs. Inr (r @ rs)))"

definition NodeVisitor_visit :: "(node \<Rightarrow> exn + 'a list) \<Rightarrow> node \<Rightarrow> exn + 'a list" where
  "NodeVisitor_visit h root = collect h (preorder root)"

section \<open>Loop nesting\<close>

text \<open>
  \<^verbatim>\<open>max_loop_nesting\<close>, lines 22 to 34. The inner \<^verbatim>\<open>visit(n, depth)\<close> updates the
  nonlocal \<^verbatim>\<open>max_depth\<close>; here it takes the running maximum and returns the new one.
\<close>

function visit :: "node \<Rightarrow> int \<Rightarrow> int \<Rightarrow> int" where
  "visit n depth max_depth =
     (let depth' = (if is_For n \<or> is_While n then depth + 1 else depth);
          max_depth' = (if is_For n \<or> is_While n then max max_depth depth' else max_depth)
      in fold (\<lambda>child m. visit child depth' m) (iter_child_nodes n) max_depth')"
  by pat_completeness auto
termination
proof (relation "measure (\<lambda>(n, d, m). size n)")
  fix n c :: node and d m d' m' :: int
  assume "c \<in> set (iter_child_nodes n)"
  then have "size c < size n"
    by (cases n)
      (auto simp: less_Suc_eq_le
        dest!: size_list_estimation'[where f = size and y = "size c", OF _ order_refl])
  then show "((c, d', m'), (n, d, m)) \<in> measure (\<lambda>(n, d, m). size n)" by simp
qed simp

declare visit.simps [simp del]

definition max_loop_nesting :: "node \<Rightarrow> int" where
  "max_loop_nesting node = visit node 0 0"

section \<open>The detectors\<close>

text \<open>\<^verbatim>\<open>find_string_concat_in_loops\<close>, lines 37 to 47.\<close>

definition visit_AugAssign :: "node \<Rightarrow> exn + (int \<times> string) list" where
  "visit_AugAssign node =
     (if is_AugAssign node then
        (if op node = Add \<and> is_Name (target node)
         then Inr [(lineno node, id' (target node))] else Inr [])
      else Inr [])"

definition find_string_concat_in_loops :: "node \<Rightarrow> exn + (int \<times> string) list" where
  "find_string_concat_in_loops module = NodeVisitor_visit visit_AugAssign module"

text \<open>\<^verbatim>\<open>find_list_append_patterns\<close>, lines 50 to 61.\<close>

definition visit_Call_append :: "node \<Rightarrow> exn + (int \<times> string) list" where
  "visit_Call_append node =
     (if is_Call node then
        (if is_Attribute (func node) then
           (if attr (func node) = ''append'' \<and> is_Name (value' (func node))
            then Inr [(lineno node, id' (value' (func node)))] else Inr [])
         else Inr [])
      else Inr [])"

definition find_list_append_patterns :: "node \<Rightarrow> exn + (int \<times> string) list" where
  "find_list_append_patterns module = NodeVisitor_visit visit_Call_append module"

text \<open>
  \<^verbatim>\<open>find_range_len_patterns\<close>, lines 64 to 78. \<^verbatim>\<open>it.args and ...\<close> tests the list for
  emptiness before \<^verbatim>\<open>it.args[0]\<close> is read.
\<close>

definition visit_For :: "node \<Rightarrow> exn + (int \<times> string) list" where
  "visit_For node =
     (if is_For node then
        (let it = iter node in
         if is_Call it \<and> is_Name (func it) \<and> id' (func it) = ''range'' then
           (if args it \<noteq> [] then
              bind (subscript (args it) 0) (\<lambda>a0.
                if is_Call a0 then
                  (if is_Name (func a0) \<and> id' (func a0) = ''len'' then
                     (if args a0 \<noteq> [] then
                        bind (subscript (args a0) 0) (\<lambda>b0.
                          if is_Name b0 then Inr [(lineno node, id' b0)] else Inr [])
                      else Inr [])
                   else Inr [])
                else Inr [])
            else Inr [])
         else Inr [])
      else Inr [])"

definition find_range_len_patterns :: "node \<Rightarrow> exn + (int \<times> string) list" where
  "find_range_len_patterns module = NodeVisitor_visit visit_For module"

text \<open>
  \<^verbatim>\<open>find_sorted_in_loops\<close>, lines 81 to 93: two independent tests, each appending the
  line of the call.
\<close>

definition visit_Call_sorted :: "node \<Rightarrow> exn + int list" where
  "visit_Call_sorted node =
     (if is_Call node then
        Inr ((if is_Name (func node) \<and> id' (func node) = ''sorted'' then [lineno node] else [])
           @ (if is_Attribute (func node) \<and> attr (func node) = ''sort'' then [lineno node] else []))
      else Inr [])"

definition find_sorted_in_loops :: "node \<Rightarrow> exn + int list" where
  "find_sorted_in_loops module = NodeVisitor_visit visit_Call_sorted module"

text \<open>
  \<^verbatim>\<open>detect_membership_of_list_in_loops\<close>, lines 96 to 108: the loop over \<^verbatim>\<open>node.ops\<close>
  reads \<^verbatim>\<open>node.comparators[0]\<close> at every \<^verbatim>\<open>In\<close>.
\<close>

definition visit_Compare :: "node \<Rightarrow> exn + (int \<times> string) list" where
  "visit_Compare node =
     (if is_Compare node then
        collect (\<lambda>op.
          if op = In then
            (if comparators node \<noteq> [] then
               bind (subscript (comparators node) 0) (\<lambda>c0.
                 if is_Name c0 then Inr [(lineno node, id' c0)] else Inr [])
             else Inr [])
          else Inr []) (ops node)
      else Inr [])"

definition detect_membership_of_list_in_loops :: "node \<Rightarrow> exn + (int \<times> string) list" where
  "detect_membership_of_list_in_loops module = NodeVisitor_visit visit_Compare module"

section \<open>Text of numbers\<close>

text \<open>
  What an f-string writes for an \<^verbatim>\<open>int\<close> and for a list of them: decimal digits, a minus
  sign for a negative number, and \<^verbatim>\<open>[a, b, c]\<close> for a list.
\<close>

definition digit_char :: "nat \<Rightarrow> char" where
  "digit_char d = ''0123456789'' ! d"

function str_nat :: "nat \<Rightarrow> string" where
  "str_nat n = (if n < 10 then [digit_char n] else str_nat (n div 10) @ [digit_char (n mod 10)])"
  by pat_completeness auto
termination
  by (relation "measure id") auto

declare str_nat.simps [simp del]

definition str_int :: "int \<Rightarrow> string" where
  "str_int i = (if i < 0 then CHR ''-'' # str_nat (nat (- i)) else str_nat (nat i))"

fun join :: "string \<Rightarrow> string list \<Rightarrow> string" where
  "join sep [] = []"
| "join sep [x] = x"
| "join sep (x # y # ys) = x @ sep @ join sep (y # ys)"

definition str_int_list :: "int list \<Rightarrow> string" where
  "str_int_list xs = ''['' @ join '', '' (map str_int xs) @ '']''"

section \<open>The estimators\<close>

record time_details =
  td_max_loop_nesting :: int
  td_sort_calls :: "int list"

record space_details =
  sd_list_comprehensions :: int
  sd_list_appends :: "(int \<times> string) list"

text \<open>\<^verbatim>\<open>estimate_time_complexity\<close>, lines 111 to 123.\<close>

definition estimate_time_complexity :: "node \<Rightarrow> exn + (string \<times> time_details)" where
  "estimate_time_complexity module =
     (let max_loops = max_loop_nesting module in
      bind (find_sorted_in_loops module) (\<lambda>sort_lines.
        let time_est =
              (if max_loops = 0 then ''O(n) or O(1) (no loops detected)''
               else if max_loops = 1 then ''Heuristic: O(n) (one loop).''
               else ''Heuristic: O(n^'' @ str_int max_loops @ '') (max loop nesting=''
                      @ str_int max_loops @ '')'');
            time_est' =
              (if sort_lines \<noteq> []
               then time_est @ '' Sorting detected at lines '' @ str_int_list sort_lines
                      @ '' (O(n log n)).''
               else time_est)
        in Inr (time_est', \<lparr>td_max_loop_nesting = max_loops, td_sort_calls = sort_lines\<rparr>)))"

text \<open>
  \<^verbatim>\<open>estimate_space_complexity\<close>, lines 126 to 142. The visitor adds one to \<^verbatim>\<open>comp_count\<close>
  at every ListComp node.
\<close>

definition visit_ListComp :: "node \<Rightarrow> exn + unit list" where
  "visit_ListComp node = (if is_ListComp node then Inr [()] else Inr [])"

definition estimate_space_complexity :: "node \<Rightarrow> exn + (string \<times> space_details)" where
  "estimate_space_complexity module =
     bind (find_list_append_patterns module) (\<lambda>appends.
       bind (NodeVisitor_visit visit_ListComp module) (\<lambda>comps.
         let comp_count = int (length comps);
             space_est =
               (if comp_count > 0 \<or> appends \<noteq> []
                then ''Heuristic: O(n) (building new containers).''
                else ''Heuristic: O(1) (no major containers built).'')
         in Inr (space_est,
                 \<lparr>sd_list_comprehensions = comp_count, sd_list_appends = appends\<rparr>)))"

section \<open>The analyzer\<close>

text \<open>
  The services the program calls and does not define: \<^verbatim>\<open>ast.parse\<close>, \<^verbatim>\<open>ast.unparse\<close>,
  \<^verbatim>\<open>astor.to_source\<close> (its import may fail) and \<^verbatim>\<open>black.format_str\<close> with the default
  mode, which is \<open>None\<close> when black cannot be imported (lines 6 to 10).
\<close>

record services =
  ast_parse :: "string \<Rightarrow> exn + node"
  ast_unparse :: "node \<Rightarrow> exn + string"
  astor_to_source :: "node \<Rightarrow> exn + string"
  format_str :: "(string \<Rightarrow> exn + string) option"

text \<open>
  A finding of the report: the dictionary with the keys \<^verbatim>\<open>type\<close>, \<^verbatim>\<open>lineno\<close>, at most one
  key of its kind (\<^verbatim>\<open>variable\<close>, \<^verbatim>\<open>list_name\<close>, \<^verbatim>\<open>sequence\<close>, \<^verbatim>\<open>container\<close>) with its value,
  and \<^verbatim>\<open>suggestion\<close>.
\<close>

datatype detection =
  Detection (dtype: string) (dlineno: int) (subject: "(string \<times> string) option")
    (suggestion: string)

text \<open>The report dictionary; a key that is absent is \<open>None\<close>.\<close>

record report =
  ok :: bool
  parse_error :: "string option"
  detections :: "detection list option"
  time_estimate :: "string option"
  time_details :: "time_details option"
  space_estimate :: "string option"
  space_details :: "space_details option"

text \<open>\<^verbatim>\<open>analyze_code\<close>, lines 146 to 201. Only SyntaxError is caught.\<close>

definition analyze_code :: "services \<Rightarrow> string \<Rightarrow> exn + report" where
  "analyze_code env code_str =
     (case ast_parse env code_str of
        Inl (SyntaxError e) \<Rightarrow>
          Inr \<lparr>ok = False, parse_error = Some e, detections = None, time_estimate = None,
               time_details = None, space_estimate = None, space_details = None\<rparr>
      | Inl e \<Rightarrow> Inl e
      | Inr module \<Rightarrow>
          bind (estimate_time_complexity module) (\<lambda>(time_est, time_det).
          bind (estimate_space_complexity module) (\<lambda>(space_est, space_det).
          bind (find_string_concat_in_loops module) (\<lambda>concats.
          bind (find_list_append_patterns module) (\<lambda>appends.
          bind (find_range_len_patterns module) (\<lambda>range_lens.
          bind (detect_membership_of_list_in_loops module) (\<lambda>memberships.
          bind (find_sorted_in_loops module) (\<lambda>sorts.
            Inr \<lparr>ok = True, parse_error = None,
                 detections = Some
                   (map (\<lambda>(lineno, var). Detection ''string_concat_in_loop'' lineno
                           (Some (''variable'', var))
                           (''Use '' @ [CHR 0x27, CHR 0x27] @ ''.join(...) instead of += in a loop.'')) concats
                  @ map (\<lambda>(lineno, var). Detection ''list_append'' lineno
                           (Some (''list_name'', var))
                           ''Consider using a list comprehension instead of append in loop.'')
                      appends
                  @ map (\<lambda>(lineno, seq). Detection ''range_len'' lineno
                           (Some (''sequence'', seq))
                           ''Use enumerate() instead of range(len(...)).'') range_lens
                  @ map (\<lambda>(lineno, container). Detection ''membership_test'' lineno
                           (Some (''container'', container))
                           ''Convert list to set for faster membership tests.'') memberships
                  @ map (\<lambda>lineno. Detection ''sort_in_loop'' lineno None
                           ''Move sorting outside loop to avoid O(n log n) each iteration.'')
                      sorts),
                 time_estimate = Some time_est, time_details = Some time_det,
                 space_estimate = Some space_est, space_details = Some space_det\<rparr>))))))))"

section \<open>The rewrite\<close>

text \<open>
  The tests of \<^verbatim>\<open>Transformer.visit_Module\<close> at one cursor position, lines 214 to 235:
  \<open>cur\<close> is \<^verbatim>\<open>node.body[i]\<close> and \<open>rest\<close> the statements after it, so that
  \<^verbatim>\<open>i + 1 < len(node.body)\<close> is \<open>rest \<noteq> []\<close> and \<^verbatim>\<open>node.body[i + 1]\<close> is \<open>hd rest\<close>.
\<close>

definition idiom_at :: "node \<Rightarrow> node list \<Rightarrow> bool" where
  "idiom_at cur rest =
     ((is_Assign cur \<and> length (targets cur) = 1 \<and> is_Name (targets cur ! 0)) \<and>
      ((is_List (value' cur) \<and> elts (value' cur) = []) \<and> rest \<noteq> [] \<and> is_For (hd rest)) \<and>
      (length (body (hd rest)) = 1 \<and> is_Expr (body (hd rest) ! 0)
         \<and> is_Call (value' (body (hd rest) ! 0))) \<and>
      (is_Attribute (func (value' (body (hd rest) ! 0)))
         \<and> attr (func (value' (body (hd rest) ! 0))) = ''append''
         \<and> is_Name (value' (func (value' (body (hd rest) ! 0))))
         \<and> id' (value' (func (value' (body (hd rest) ! 0)))) = id' (targets cur ! 0)))"

text \<open>
  Lines 236 to 242, run when all four tests hold: \<^verbatim>\<open>call.args[0]\<close> is read with no test
  of \<^verbatim>\<open>call.args\<close>, and the new statement is built. Its three new nodes have no line;
  \<^verbatim>\<open>ast.fix_missing_locations\<close> (line 251) gives a node without a line the line of its
  nearest located ancestor, which for a top-level statement is the start value 1.
\<close>

definition build_comprehension :: "node \<Rightarrow> node \<Rightarrow> exn + node" where
  "build_comprehension cur fnode =
     (let varname = id' (targets cur ! 0);
          call = value' (body fnode ! 0)
      in bind (subscript (args call) 0) (\<lambda>elt.
           Inr (Assign 1 [Name 1 varname]
                  (ListComp 1 elt [comprehension (target fnode) (iter fnode) [] 0]))))"

text \<open>
  The \<^verbatim>\<open>while\<close> loop of \<^verbatim>\<open>visit_Module\<close>, lines 212 to 246, over the statements from the
  cursor on; the result is what the loop appends to \<^verbatim>\<open>new_body\<close> from there.
\<close>

function visit_Module_loop :: "node list \<Rightarrow> exn + node list" where
  "visit_Module_loop [] = Inr []"
| "visit_Module_loop (cur # rest) =
     (if idiom_at cur rest then
        bind (build_comprehension cur (hd rest)) (\<lambda>assign.
          bind (visit_Module_loop (tl rest)) (\<lambda>new_body. Inr (assign # new_body)))
      else bind (visit_Module_loop rest) (\<lambda>new_body. Inr (cur # new_body)))"
  by pat_completeness auto
termination
  by (relation "measure length") auto

text \<open>
  \<^verbatim>\<open>Transformer().visit(module)\<close>: the transformer has one handler, for the Module that
  \<^verbatim>\<open>ast.parse\<close> returns as the root, and the handler does not descend.
\<close>

definition visit_Module :: "node \<Rightarrow> exn + node" where
  "visit_Module node = bind (visit_Module_loop (body node)) (\<lambda>new_body. Inr (Module new_body))"

definition Transformer_visit :: "node \<Rightarrow> exn + node" where
  "Transformer_visit root = (if is_Module root then visit_Module root else Inr root)"

text \<open>\<^verbatim>\<open>safe_unparse\<close>, lines 14 to 19.\<close>

definition safe_unparse :: "services \<Rightarrow> node \<Rightarrow> exn + string" where
  "safe_unparse env node =
     (case ast_unparse env node of Inr s \<Rightarrow> Inr s | Inl e \<Rightarrow> astor_to_source env node)"

text \<open>Lines 253 to 257: the formatter's result if there is a formatter and it returns.\<close>

definition best_effort_format :: "services \<Rightarrow> string \<Rightarrow> string" where
  "best_effort_format env code_out =
     (case format_str env of
        None \<Rightarrow> code_out
      | Some f \<Rightarrow> (case f code_out of Inr formatted \<Rightarrow> formatted | Inl e \<Rightarrow> code_out))"

text \<open>\<^verbatim>\<open>auto_refactor\<close>, lines 205 to 258.\<close>

definition auto_refactor :: "services \<Rightarrow> string \<Rightarrow> exn + string" where
  "auto_refactor env code_str =
     bind (ast_parse env code_str) (\<lambda>module.
       bind (Transformer_visit module) (\<lambda>new_module.
         bind (safe_unparse env new_module) (\<lambda>code_out.
           Inr (best_effort_format env code_out))))"

section \<open>Definitions for the statements\<close>

text \<open>
  The depth of lexically nested loops of a tree, as the specification words it: a
  for-loop or a while-loop counts one, on top of the deepest nesting among the children.
\<close>

function loop_depth :: "node \<Rightarrow> nat" where
  "loop_depth n =
     (if is_For n \<or> is_While n then 1 else 0)
       + fold max (map loop_depth (iter_child_nodes n)) 0"
  by pat_completeness auto
termination
proof (relation "measure size")
  fix n c :: node
  assume "c \<in> set (iter_child_nodes n)"
  then have "size c < size n"
    by (cases n)
      (auto simp: less_Suc_eq_le
        dest!: size_list_estimation'[where f = size and y = "size c", OF _ order_refl])
  then show "(c, n) \<in> measure size" by simp
qed simp

declare loop_depth.simps [simp del]

text \<open>\<open>k\<close> for-loops, each the only statement of the one around it, about a \<^verbatim>\<open>pass\<close>.\<close>

fun nested_loops :: "nat \<Rightarrow> node" where
  "nested_loops 0 = Other ''Pass'' 1 []"
| "nested_loops (Suc k) = For 1 (Name 1 ''x'') (Name 1 ''xs'') [nested_loops k] []"

text \<open>A parser that rejects every text, as \<^verbatim>\<open>ast.parse\<close> rejects \<^verbatim>\<open>x =\<close>.\<close>

definition rejecting_services :: services where
  "rejecting_services =
     \<lparr>ast_parse = (\<lambda>s. Inl (SyntaxError ''invalid syntax (<unknown>, line 1)'')),
      ast_unparse = (\<lambda>n. Inl (OtherError ''unused'')),
      astor_to_source = (\<lambda>n. Inl (OtherError ''unused'')),
      format_str = None\<rparr>"

text \<open>
  Two trees have the same structure when they differ in line numbers only:
  \<open>erase_locations\<close> sets every line to 0.
\<close>

fun erase_locations :: "node \<Rightarrow> node" where
  "erase_locations (Module b) = Module (map erase_locations b)"
| "erase_locations (Assign l ts v) = Assign 0 (map erase_locations ts) (erase_locations v)"
| "erase_locations (AugAssign l t o' v) = AugAssign 0 (erase_locations t) o' (erase_locations v)"
| "erase_locations (For l t i b e) =
     For 0 (erase_locations t) (erase_locations i) (map erase_locations b) (map erase_locations e)"
| "erase_locations (While l t b e) =
     While 0 (erase_locations t) (map erase_locations b) (map erase_locations e)"
| "erase_locations (If l t b e) =
     If 0 (erase_locations t) (map erase_locations b) (map erase_locations e)"
| "erase_locations (Expr l v) = Expr 0 (erase_locations v)"
| "erase_locations (Call l f as ks) =
     Call 0 (erase_locations f) (map erase_locations as) (map erase_locations ks)"
| "erase_locations (keyword l a v) = keyword 0 a (erase_locations v)"
| "erase_locations (Attribute l v a) = Attribute 0 (erase_locations v) a"
| "erase_locations (Name l i) = Name 0 i"
| "erase_locations (Constant l r) = Constant 0 r"
| "erase_locations (List l es) = List 0 (map erase_locations es)"
| "erase_locations (Compare l x os cs) =
     Compare 0 (erase_locations x) os (map erase_locations cs)"
| "erase_locations (ListComp l e gs) = ListComp 0 (erase_locations e) (map erase_locations gs)"
| "erase_locations (comprehension t i fs a) =
     comprehension (erase_locations t) (erase_locations i) (map erase_locations fs) a"
| "erase_locations (Other k l cs) = Other k 0 (map erase_locations cs)"

text \<open>
  Services given by a table of texts and their trees, for the concrete runs below: the
  parser looks the text up and rejects a text that is not in the table; the serializer
  returns the text of the first tree of the same structure; there is no astor and no
  formatter.
\<close>

definition table_services :: "(string \<times> node) list \<Rightarrow> services" where
  "table_services tbl =
     \<lparr>ast_parse = (\<lambda>s. case map_of tbl s of
                          Some m \<Rightarrow> Inr m
                        | None \<Rightarrow> Inl (SyntaxError ''invalid syntax (<unknown>, line 1)'')),
      ast_unparse = (\<lambda>n. case find (\<lambda>(s, m). erase_locations m = erase_locations n) tbl of
                            Some (s, m) \<Rightarrow> Inr s
                          | None \<Rightarrow> Inl (OtherError ''no text for this tree'')),
      astor_to_source = (\<lambda>n. Inl (OtherError ''No module named astor'')),
      format_str = None\<rparr>"

text \<open>
  The example of the specification,
  \<^verbatim>\<open>result = []\<close> / \<^verbatim>\<open>for x in items:\<close> / \<^verbatim>\<open>    result.append(f(x))\<close>, and the text
  \<^verbatim>\<open>result = [f(x) for x in items]\<close>, each with the tree \<^verbatim>\<open>ast.parse\<close> gives it.
\<close>

definition canonical_source :: string where
  "canonical_source =
     ''result = []'' @ [CHR 0x0A] @ ''for x in items:'' @ [CHR 0x0A]
       @ ''    result.append(f(x))'' @ [CHR 0x0A]"

definition canonical_module :: node where
  "canonical_module =
     Module
       [Assign 1 [Name 1 ''result''] (List 1 []),
        For 2 (Name 2 ''x'') (Name 2 ''items'')
          [Expr 3 (Call 3 (Attribute 3 (Name 3 ''result'') ''append'')
                     [Call 3 (Name 3 ''f'') [Name 3 ''x''] []] [])]
          []]"

definition comprehension_source :: string where
  "comprehension_source = ''result = [f(x) for x in items]''"

definition comprehension_module :: node where
  "comprehension_module =
     Module
       [Assign 1 [Name 1 ''result'']
          (ListComp 1 (Call 1 (Name 1 ''f'') [Name 1 ''x''] [])
             [comprehension (Name 1 ''x'') (Name 1 ''items'') [] 0])]"

text \<open>\<^verbatim>\<open>x = 1\<close>, and two nested loops \<^verbatim>\<open>for i in a:\<close> / \<^verbatim>\<open>    for j in b:\<close> / \<^verbatim>\<open>        pass\<close>.\<close>

definition loop_free_source :: string where
  "loop_free_source = ''x = 1''"

definition loop_free_module :: node where
  "loop_free_module = Module [Assign 1 [Name 1 ''x''] (Constant 1 ''1'')]"

definition two_loops_source :: string where
  "two_loops_source =
     ''for i in a:'' @ [CHR 0x0A] @ ''    for j in b:'' @ [CHR 0x0A] @ ''        pass'' @ [CHR 0x0A]"

definition two_loops_module :: node where
  "two_loops_module =
     Module
       [For 1 (Name 1 ''i'') (Name 1 ''a'')
          [For 2 (Name 2 ''j'') (Name 2 ''b'') [Other ''Pass'' 3 []] []] []]"

definition example_services :: services where
  "example_services =
     table_services
       [(canonical_source, canonical_module), (comprehension_source, comprehension_module),
        (loop_free_source, loop_free_module), (two_loops_source, two_loops_module)]"

text \<open>
  A sort call, as the detector of sort calls reads it: a call of the bare name
  \<^verbatim>\<open>sorted\<close>, or a call whose callee is an attribute named \<^verbatim>\<open>sort\<close>.
\<close>

definition is_sort_call :: "node \<Rightarrow> bool" where
  "is_sort_call n =
     (is_Call n \<and> ((is_Name (func n) \<and> id' (func n) = ''sorted'')
                  \<or> (is_Attribute (func n) \<and> attr (func n) = ''sort'')))"

text \<open>The statement \<^verbatim>\<open>a in b in c\<close>.\<close>

definition chained_in_module :: node where
  "chained_in_module =
     Module [Expr 1 (Compare 1 (Name 1 ''a'') [In, In] [Name 1 ''b'', Name 1 ''c''])]"

text \<open>\<^verbatim>\<open>ys = sorted(xs)\<close> on line 1 and \<^verbatim>\<open>xs.sort()\<close> on line 2.\<close>

definition two_sorts_source :: string where
  "two_sorts_source = ''ys = sorted(xs)'' @ [CHR 0x0A] @ ''xs.sort()'' @ [CHR 0x0A]"

definition two_sorts_module :: node where
  "two_sorts_module =
     Module
       [Assign 1 [Name 1 ''ys''] (Call 1 (Name 1 ''sorted'') [Name 1 ''xs''] []),
        Expr 2 (Call 2 (Attribute 2 (Name 2 ''xs'') ''sort'') [] [])]"

text \<open>
  \<^verbatim>\<open>a = []\<close> / \<^verbatim>\<open>for x in y:\<close> / \<^verbatim>\<open>    a.append()\<close>: valid syntax, with a call of
  \<^verbatim>\<open>append\<close> that has no argument.
\<close>

definition empty_append_source :: string where
  "empty_append_source =
     ''a = []'' @ [CHR 0x0A] @ ''for x in y:'' @ [CHR 0x0A] @ ''    a.append()'' @ [CHR 0x0A]"

definition empty_append_module :: node where
  "empty_append_module =
     Module
       [Assign 1 [Name 1 ''a''] (List 1 []),
        For 2 (Name 2 ''x'') (Name 2 ''y'')
          [Expr 3 (Call 3 (Attribute 3 (Name 3 ''a'') ''append'') [] [])] []]"

text \<open>
  A loop with an \<^verbatim>\<open>else\<close> clause that holds the idiom once more:
  \<^verbatim>\<open>a = []\<close> / \<^verbatim>\<open>for x in xs:\<close> / \<^verbatim>\<open>    a.append(x)\<close> / \<^verbatim>\<open>else:\<close> / \<^verbatim>\<open>    b = []\<close> /
  \<^verbatim>\<open>    for y in ys:\<close> / \<^verbatim>\<open>        b.append(y)\<close>; \<open>nested_idiom\<close> is the \<^verbatim>\<open>else\<close> block and
  \<open>for_else_result\<close> the tree of \<^verbatim>\<open>a = [x for x in xs]\<close> that the transformer builds.
\<close>

definition for_else_source :: string where
  "for_else_source =
     ''a = []'' @ [CHR 0x0A] @ ''for x in xs:'' @ [CHR 0x0A] @ ''    a.append(x)'' @ [CHR 0x0A]
     @ ''else:'' @ [CHR 0x0A] @ ''    b = []'' @ [CHR 0x0A] @ ''    for y in ys:'' @ [CHR 0x0A]
     @ ''        b.append(y)'' @ [CHR 0x0A]"

definition nested_idiom :: "node list" where
  "nested_idiom =
     [Assign 5 [Name 5 ''b''] (List 5 []),
      For 6 (Name 6 ''y'') (Name 6 ''ys'')
        [Expr 7 (Call 7 (Attribute 7 (Name 7 ''b'') ''append'') [Name 7 ''y''] [])] []]"

definition for_else_module :: node where
  "for_else_module =
     Module
       [Assign 1 [Name 1 ''a''] (List 1 []),
        For 2 (Name 2 ''x'') (Name 2 ''xs'')
          [Expr 3 (Call 3 (Attribute 3 (Name 3 ''a'') ''append'') [Name 3 ''x''] [])]
          nested_idiom]"

definition for_else_result :: node where
  "for_else_result =
     Module
       [Assign 1 [Name 1 ''a'']
          (ListComp 1 (Name 3 ''x'') [comprehension (Name 2 ''x'') (Name 2 ''xs'') [] 0])]"

text \<open>
  \<^verbatim>\<open>r = []\<close> / \<^verbatim>\<open>for x in xs:\<close> / \<^verbatim>\<open>    r.append(x, 1)\<close>, a call of \<^verbatim>\<open>append\<close> with two
  arguments, and the tree of \<^verbatim>\<open>r = [x for x in xs]\<close> that the transformer builds.
\<close>

definition two_args_source :: string where
  "two_args_source =
     ''r = []'' @ [CHR 0x0A] @ ''for x in xs:'' @ [CHR 0x0A] @ ''    r.append(x, 1)'' @ [CHR 0x0A]"

definition two_args_module :: node where
  "two_args_module =
     Module
       [Assign 1 [Name 1 ''r''] (List 1 []),
        For 2 (Name 2 ''x'') (Name 2 ''xs'')
          [Expr 3 (Call 3 (Attribute 3 (Name 3 ''r'') ''append'')
                     [Name 3 ''x'', Constant 3 ''1''] [])] []]"

definition two_args_result :: node where
  "two_args_result =
     Module
       [Assign 1 [Name 1 ''r'']
          (ListComp 1 (Name 3 ''x'') [comprehension (Name 2 ''x'') (Name 2 ''xs'') [] 0])]"

definition two_args_services :: services where
  "two_args_services =
     table_services [(two_args_source, two_args_module), (''r = [x for x in xs]'', two_args_result)]"

text \<open>No cursor position of a statement sequence passes the four tests of the rewrite.\<close>

fun no_idiom_left :: "node list \<Rightarrow> bool" where
  "no_idiom_left [] = True"
| "no_idiom_left (cur # rest) = (\<not> idiom_at cur rest \<and> no_idiom_left rest)"

text \<open>
  \<^verbatim>\<open>r = []\<close> / \<^verbatim>\<open>for x in xs:\<close> / \<^verbatim>\<open>    r.append(*x)\<close>: valid syntax, the one argument
  of \<^verbatim>\<open>append\<close> being a starred expression (an \<^verbatim>\<open>ast.Starred\<close> node, whose one child is
  its value). \<open>starred_result\<close> is the tree the transformer builds from it and
  \<open>starred_text\<close> the text \<^verbatim>\<open>ast.unparse\<close> gives for that tree. \<open>starred_services\<close> are
  the services as CPython 3.9 to 3.14 behaves on these two texts: the first parses, and
  the second is rejected, since a comprehension must not have a starred element.
\<close>

definition starred_source :: string where
  "starred_source =
     ''r = []'' @ [CHR 0x0A] @ ''for x in xs:'' @ [CHR 0x0A] @ ''    r.append(*x)'' @ [CHR 0x0A]"

definition starred_module :: node where
  "starred_module =
     Module
       [Assign 1 [Name 1 ''r''] (List 1 []),
        For 2 (Name 2 ''x'') (Name 2 ''xs'')
          [Expr 3 (Call 3 (Attribute 3 (Name 3 ''r'') ''append'')
                     [Other ''Starred'' 3 [Name 3 ''x'']] [])] []]"

definition starred_result :: node where
  "starred_result =
     Module
       [Assign 1 [Name 1 ''r'']
          (ListComp 1 (Other ''Starred'' 3 [Name 3 ''x''])
             [comprehension (Name 2 ''x'') (Name 2 ''xs'') [] 0])]"

definition starred_text :: string where
  "starred_text = ''r = [*x for x in xs]''"

definition starred_services :: services where
  "starred_services =
     \<lparr>ast_parse = (\<lambda>s. if s = starred_source then Inr starred_module
                        else Inl (SyntaxError
                          ''iterable unpacking cannot be used in comprehension (<unknown>, line 1)'')),
      ast_unparse = (\<lambda>n. if erase_locations n = erase_locations starred_result
                          then Inr starred_text
                          else Inl (OtherError ''no text for this tree'')),
      astor_to_source = (\<lambda>n. Inl (OtherError ''No module named astor'')),
      format_str = None\<rparr>"

text \<open>
  The Python string of the one character U+D800, a surrogate with no partner, here as
  the three bytes its code point has in the UTF-8 scheme. \<^verbatim>\<open>ast.parse\<close> has to encode
  the text and raises UnicodeEncodeError on it, which is a ValueError and not a
  SyntaxError; \<open>surrogate_services\<close> is a parser that behaves so on this string.
\<close>

definition lone_surrogate :: string where
  "lone_surrogate = [CHR 0xED, CHR 0xA0, CHR 0x80]"

definition surrogate_services :: services where
  "surrogate_services =
     \<lparr>ast_parse = (\<lambda>s. if s = lone_surrogate
                        then Inl (OtherError ''UnicodeEncodeError: surrogates not allowed'')
                        else Inl (SyntaxError ''invalid syntax (<unknown>, line 1)'')),
      ast_unparse = (\<lambda>n. Inl (OtherError ''unused'')),
      astor_to_source = (\<lambda>n. Inl (OtherError ''unused'')),
      format_str = None\<rparr>"

section \<open>Basic facts\<close>

lemma bind_Inr: "bind (Inr x) f = f x"
  by (simp add: bind_def)

lemma bind_Inl: "bind (Inl e) f = Inl e"
  by (simp add: bind_def)

subsection \<open>Loop nesting\<close>

lemma fold_max_nat: "fold max xs (a::nat) = max a (fold max xs 0)"
proof (induction xs arbitrary: a)
  case Nil
  then show ?case by simp
next
  case (Cons x xs)
  have "fold max (x # xs) a = max (max x a) (fold max xs 0)"
    using Cons.IH[of "max x a"] by simp
  moreover have "fold max (x # xs) 0 = max x (fold max xs 0)"
    using Cons.IH[of x] by simp
  ultimately show ?case by (simp add: max.assoc max.left_commute)
qed

lemma visit_fold:
  assumes "\<And>c m. c \<in> set cs \<Longrightarrow> d \<le> m \<Longrightarrow> visit c d m = max m (d + int (loop_depth c))"
    and "d \<le> m"
  shows "fold (\<lambda>child m. visit child d m) cs m = max m (d + int (fold max (map loop_depth cs) 0))"
  using assms
proof (induction cs arbitrary: m)
  case Nil
  then show ?case by simp
next
  case (Cons c cs)
  have 1: "visit c d m = max m (d + int (loop_depth c))" using Cons.prems by simp
  have 2: "d \<le> max m (d + int (loop_depth c))" using Cons.prems by simp
  have 3: "fold (\<lambda>child m. visit child d m) cs (max m (d + int (loop_depth c)))
      = max (max m (d + int (loop_depth c))) (d + int (fold max (map loop_depth cs) 0))"
    using Cons.IH[OF _ 2] Cons.prems(1) by simp
  have 4: "fold max (map loop_depth (c # cs)) 0 = max (loop_depth c) (fold max (map loop_depth cs) 0)"
    using fold_max_nat[of "map loop_depth cs" "loop_depth c"] by simp
  have "fold (\<lambda>child m. visit child d m) (c # cs) m
      = max (max m (d + int (loop_depth c))) (d + int (fold max (map loop_depth cs) 0))"
    using 1 3 by simp
  also have "\<dots> = max m (d + int (max (loop_depth c) (fold max (map loop_depth cs) 0)))"
    by linarith
  finally show ?case using 4 by simp
qed

lemma visit_loop_depth:
  "depth \<le> max_depth \<Longrightarrow> visit n depth max_depth = max max_depth (depth + int (loop_depth n))"
proof (induction n depth max_depth rule: visit.induct)
  case (1 n depth max_depth)
  show ?case
  proof (cases "is_For n \<or> is_While n")
    case True
    have "fold (\<lambda>child m. visit child (depth + 1) m) (iter_child_nodes n) (max max_depth (depth + 1))
        = max (max max_depth (depth + 1)) (depth + 1 + int (fold max (map loop_depth (iter_child_nodes n)) 0))"
      apply (rule visit_fold)
      using 1 True by auto
    then show ?thesis
      using True by (subst visit.simps, subst loop_depth.simps) (simp add: Let_def)
  next
    case False
    have "fold (\<lambda>child m. visit child depth m) (iter_child_nodes n) max_depth
        = max max_depth (depth + int (fold max (map loop_depth (iter_child_nodes n)) 0))"
      apply (rule visit_fold)
      using 1 False by auto
    then show ?thesis
      using False by (subst visit.simps, subst loop_depth.simps) (simp add: Let_def)
  qed
qed

lemma max_loop_nesting_loop_depth: "max_loop_nesting n = int (loop_depth n)"
  by (simp add: max_loop_nesting_def visit_loop_depth)

lemma loop_depth_nested: "loop_depth (nested_loops k) = k"
  by (induction k) (simp_all add: loop_depth.simps[of "For _ _ _ _ _"] loop_depth.simps[of "Other _ _ _"] loop_depth.simps[of "Name _ _"])

lemma loop_depth_Module: "loop_depth (Module [n]) = loop_depth n"
  by (simp add: loop_depth.simps[of "Module _"])

subsection \<open>The visitors never raise\<close>

lemma collect_total:
  "(\<And>x. x \<in> set xs \<Longrightarrow> \<exists>r. h x = Inr r)
    \<Longrightarrow> collect h xs = Inr (concat (map (\<lambda>x. projr (h x)) xs))"
proof (induction xs)
  case Nil
  then show ?case by simp
next
  case (Cons x xs)
  obtain r where r: "h x = Inr r" using Cons.prems by auto
  have "collect h xs = Inr (concat (map (\<lambda>x. projr (h x)) xs))"
    using Cons by simp
  then show ?case using r by (simp add: bind_Inr)
qed

lemma visit_AugAssign_total: "\<exists>r. visit_AugAssign n = Inr r"
  by (simp add: visit_AugAssign_def)

lemma visit_Call_append_total: "\<exists>r. visit_Call_append n = Inr r"
  by (simp add: visit_Call_append_def)

lemma visit_Call_sorted_total: "\<exists>r. visit_Call_sorted n = Inr r"
  by (simp add: visit_Call_sorted_def)

lemma visit_ListComp_total: "\<exists>r. visit_ListComp n = Inr r"
  by (simp add: visit_ListComp_def)

lemma subscript_0: "xs \<noteq> [] \<Longrightarrow> subscript xs 0 = Inr (hd xs)"
  by (cases xs) (simp_all add: subscript_def)

lemma visit_For_total: "\<exists>r. visit_For n = Inr r"
  by (simp add: visit_For_def Let_def subscript_0 bind_Inr)

lemma visit_Compare_total: "\<exists>r. visit_Compare n = Inr r"
proof (cases "is_Compare n")
  case True
  have "\<exists>r. (if op = In then
            (if comparators n \<noteq> [] then
               bind (subscript (comparators n) 0) (\<lambda>c0.
                 if is_Name c0 then Inr [(lineno n, id' c0)] else Inr [])
             else Inr [])
          else Inr []) = Inr r" for op
    by (simp add: subscript_0 bind_Inr)
  then show ?thesis
    using True by (simp add: visit_Compare_def collect_total)
next
  case False
  then show ?thesis by (simp add: visit_Compare_def)
qed

lemma NodeVisitor_visit_total:
  "(\<And>n. \<exists>r. h n = Inr r)
    \<Longrightarrow> NodeVisitor_visit h root = Inr (concat (map (\<lambda>n. projr (h n)) (preorder root)))"
  by (simp add: NodeVisitor_visit_def collect_total)

subsection \<open>The detectors and estimators return\<close>

lemma Inr_projr: "\<exists>r. x = Inr r \<Longrightarrow> x = Inr (projr x)"
  by auto

lemma find_string_concat_in_loops_total:
  "find_string_concat_in_loops m = Inr (concat (map (\<lambda>n. projr (visit_AugAssign n)) (preorder m)))"
  by (simp add: find_string_concat_in_loops_def NodeVisitor_visit_total visit_AugAssign_total)

lemma find_list_append_patterns_total:
  "find_list_append_patterns m = Inr (concat (map (\<lambda>n. projr (visit_Call_append n)) (preorder m)))"
  by (simp add: find_list_append_patterns_def NodeVisitor_visit_total visit_Call_append_total)

lemma find_range_len_patterns_total:
  "find_range_len_patterns m = Inr (concat (map (\<lambda>n. projr (visit_For n)) (preorder m)))"
  by (simp add: find_range_len_patterns_def NodeVisitor_visit_total visit_For_total)

lemma find_sorted_in_loops_total:
  "find_sorted_in_loops m = Inr (concat (map (\<lambda>n. projr (visit_Call_sorted n)) (preorder m)))"
  by (simp add: find_sorted_in_loops_def NodeVisitor_visit_total visit_Call_sorted_total)

lemma detect_membership_of_list_in_loops_total:
  "detect_membership_of_list_in_loops m
     = Inr (concat (map (\<lambda>n. projr (visit_Compare n)) (preorder m)))"
  by (simp add: detect_membership_of_list_in_loops_def NodeVisitor_visit_total visit_Compare_total)

lemma estimate_time_complexity_total: "\<exists>s d. estimate_time_complexity m = Inr (s, d)"
  by (simp add: estimate_time_complexity_def find_sorted_in_loops_total bind_Inr Let_def)

lemma estimate_space_complexity_total: "\<exists>s d. estimate_space_complexity m = Inr (s, d)"
  by (simp add: estimate_space_complexity_def find_list_append_patterns_total
      NodeVisitor_visit_total visit_ListComp_total bind_Inr Let_def)

lemma analyze_code_parsed:
  assumes "ast_parse env code_str = Inr m"
  shows "\<exists>r. analyze_code env code_str = Inr r \<and> ok r
           \<and> time_estimate r = Some (fst (projr (estimate_time_complexity m)))
           \<and> time_details r = Some (snd (projr (estimate_time_complexity m)))
           \<and> space_estimate r = Some (fst (projr (estimate_space_complexity m)))
           \<and> space_details r = Some (snd (projr (estimate_space_complexity m)))"
proof -
  obtain s d where t: "estimate_time_complexity m = Inr (s, d)"
    using estimate_time_complexity_total by blast
  obtain s' d' where sp: "estimate_space_complexity m = Inr (s', d')"
    using estimate_space_complexity_total by blast
  show ?thesis
    using assms t sp
    by (simp add: analyze_code_def bind_Inr find_string_concat_in_loops_total
        find_list_append_patterns_total find_range_len_patterns_total
        find_sorted_in_loops_total detect_membership_of_list_in_loops_total)
qed

lemma time_estimate_depth:
  assumes "estimate_time_complexity m = Inr (s, d)"
  shows "td_max_loop_nesting d = int (loop_depth m)"
    and "loop_depth m = 0 \<Longrightarrow> sublist ''O(n) or O(1)'' s"
    and "loop_depth m = 1 \<Longrightarrow> sublist ''O(n)'' s"
    and "2 \<le> loop_depth m \<Longrightarrow> sublist (''O(n^'' @ str_int (int (loop_depth m)) @ '')'') s"
proof -
  obtain ls where ls: "find_sorted_in_loops m = Inr ls"
    using find_sorted_in_loops_total by blast
  define suffix where "suffix = (if ls \<noteq> [] then '' Sorting detected at lines '' @ str_int_list ls
                      @ '' (O(n log n)).'' else [])"
  show "td_max_loop_nesting d = int (loop_depth m)"
    using assms ls
    by (auto simp: estimate_time_complexity_def bind_Inr Let_def max_loop_nesting_loop_depth)
  {
    assume z: "loop_depth m = 0"
    have "s = [] @ ''O(n) or O(1)'' @ ('' (no loops detected)'' @ suffix)"
      using assms ls z
      by (auto simp: estimate_time_complexity_def bind_Inr Let_def max_loop_nesting_loop_depth suffix_def)
    then show "sublist ''O(n) or O(1)'' s" unfolding sublist_def by blast
  }
  {
    assume z: "loop_depth m = 1"
    have "s = ''Heuristic: '' @ ''O(n)'' @ ('' (one loop).'' @ suffix)"
      using assms ls z
      by (auto simp: estimate_time_complexity_def bind_Inr Let_def max_loop_nesting_loop_depth suffix_def)
    then show "sublist ''O(n)'' s" unfolding sublist_def by blast
  }
  {
    assume z: "2 \<le> loop_depth m"
    have "s = ''Heuristic: '' @ (''O(n^'' @ str_int (int (loop_depth m)) @ '')'')
             @ ('' (max loop nesting='' @ str_int (int (loop_depth m)) @ '')'' @ suffix)"
      using assms ls z
      by (auto simp: estimate_time_complexity_def bind_Inr Let_def max_loop_nesting_loop_depth suffix_def)
    then show "sublist (''O(n^'' @ str_int (int (loop_depth m)) @ '')'') s"
      unfolding sublist_def by blast
  }
qed

subsection \<open>The example texts\<close>

lemma example_parse:
  "ast_parse example_services canonical_source = Inr canonical_module"
  "ast_parse example_services comprehension_source = Inr comprehension_module"
  "ast_parse example_services loop_free_source = Inr loop_free_module"
  "ast_parse example_services two_loops_source = Inr two_loops_module"
  by (simp_all add: example_services_def table_services_def canonical_source_def
      comprehension_source_def loop_free_source_def two_loops_source_def)

lemma example_loop_depth:
  "loop_depth loop_free_module = 0"
  "loop_depth canonical_module = 1"
  "loop_depth two_loops_module = 2"
  by (simp_all add: loop_free_module_def canonical_module_def two_loops_module_def loop_depth.simps)

subsection \<open>Sort calls and membership tests\<close>

lemma concat_map_if: "concat (map (\<lambda>x. if P x then [f x] else []) xs) = map f (filter P xs)"
  by (induction xs) simp_all

lemma concat_map_split:
  "x \<in> set xs \<Longrightarrow> \<exists>pre post. concat (map g xs) = pre @ g x @ post"
proof -
  assume "x \<in> set xs"
  then obtain ys zs where "xs = ys @ x # zs" by (meson split_list)
  then have "concat (map g xs) = concat (map g ys) @ g x @ concat (map g zs)" by simp
  then show ?thesis by blast
qed

lemma visit_Call_sorted_eq:
  "visit_Call_sorted n = Inr (if is_sort_call n then [lineno n] else [])"
  by (cases "func n") (auto simp: visit_Call_sorted_def is_sort_call_def)

lemma find_sorted_in_loops_eq:
  "find_sorted_in_loops m = Inr (map lineno (filter is_sort_call (preorder m)))"
  by (simp add: find_sorted_in_loops_total visit_Call_sorted_eq concat_map_if)

lemma sublist_join: "x \<in> set xs \<Longrightarrow> sublist x (join sep xs)"
proof (induction sep xs rule: join.induct)
  case (1 sep)
  then show ?case by simp
next
  case (2 sep y)
  then show ?case by simp
next
  case (3 sep y z zs)
  show ?case
  proof (cases "x = y")
    case True
    then show ?thesis by (simp add: sublist_append_rightI del: join.simps(3)) (simp)
  next
    case False
    then have "sublist x (join sep (z # zs))" using 3 by simp
    then obtain p q where "join sep (z # zs) = p @ x @ q" unfolding sublist_def by blast
    then have "join sep (y # z # zs) = (y @ sep @ p) @ x @ q" by simp
    then show ?thesis unfolding sublist_def by blast
  qed
qed

lemma sublist_str_int_list: "i \<in> set ls \<Longrightarrow> sublist (str_int i) (str_int_list ls)"
proof -
  assume "i \<in> set ls"
  then have "sublist (str_int i) (join '', '' (map str_int ls))"
    by (intro sublist_join) simp
  then obtain p q where "join '', '' (map str_int ls) = p @ str_int i @ q"
    unfolding sublist_def by blast
  then have "str_int_list ls = (''['' @ p) @ str_int i @ (q @ '']'')"
    by (simp add: str_int_list_def)
  then show ?thesis unfolding sublist_def by blast
qed

lemma time_estimate_sort_lines:
  assumes "estimate_time_complexity m = Inr (s, d)" and "n \<in> set (preorder m)" and "is_sort_call n"
  shows "sublist (str_int (lineno n)) s"
proof -
  define ls where "ls = map lineno (filter is_sort_call (preorder m))"
  have in_ls: "lineno n \<in> set ls" using assms(2,3) by (auto simp: ls_def)
  then have ne: "ls \<noteq> []" by auto
  obtain p q where pq: "str_int_list ls = p @ str_int (lineno n) @ q"
    using sublist_str_int_list[OF in_ls] unfolding sublist_def by blast
  define t where "t =
      (if max_loop_nesting m = 0 then ''O(n) or O(1) (no loops detected)''
       else if max_loop_nesting m = 1 then ''Heuristic: O(n) (one loop).''
       else ''Heuristic: O(n^'' @ str_int (max_loop_nesting m) @ '') (max loop nesting=''
              @ str_int (max_loop_nesting m) @ '')'')"
  have "s = t @ '' Sorting detected at lines '' @ str_int_list ls @ '' (O(n log n)).''"
    using assms(1) ne unfolding t_def ls_def
    by (simp add: estimate_time_complexity_def find_sorted_in_loops_eq bind_Inr Let_def)
  then have "s = (t @ '' Sorting detected at lines '' @ p) @ str_int (lineno n)
      @ (q @ '' (O(n log n)).'')"
    using pq by simp
  then show ?thesis unfolding sublist_def by blast
qed

lemma analyze_code_detections:
  assumes "ast_parse env code_str = Inr m"
  shows "\<exists>r ds. analyze_code env code_str = Inr r \<and> detections r = Some ds
          \<and> time_estimate r = Some (fst (projr (estimate_time_complexity m)))
          \<and> filter (\<lambda>d. dtype d = ''sort_in_loop'') ds
              = map (\<lambda>lineno. Detection ''sort_in_loop'' lineno None
                      ''Move sorting outside loop to avoid O(n log n) each iteration.'')
                  (projr (find_sorted_in_loops m))"
proof -
  obtain s d where t: "estimate_time_complexity m = Inr (s, d)"
    using estimate_time_complexity_total by blast
  obtain s' d' where sp: "estimate_space_complexity m = Inr (s', d')"
    using estimate_space_complexity_total by blast
  show ?thesis
    using assms t sp
    by (simp add: analyze_code_def bind_Inr find_string_concat_in_loops_total
        find_list_append_patterns_total find_range_len_patterns_total
        find_sorted_in_loops_total detect_membership_of_list_in_loops_total
        filter_map o_def split_def)
qed

lemma two_sorts_preorder:
  "filter is_sort_call (preorder two_sorts_module)
     = [Call 1 (Name 1 ''sorted'') [Name 1 ''xs''] [],
        Call 2 (Attribute 2 (Name 2 ''xs'') ''sort'') [] []]"
  by (simp add: two_sorts_module_def preorder.simps is_sort_call_def)

lemma visit_Compare_chain:
  "visit_Compare (Compare l x os (Name l' v # cs)) = Inr (replicate (count_list os In) (l, v))"
proof -
  have "collect (\<lambda>op.
          if op = In then
            (if Name l' v # cs \<noteq> [] then
               bind (subscript (Name l' v # cs) 0) (\<lambda>c0.
                 if is_Name c0 then Inr [(l, id' c0)] else Inr [])
             else Inr [])
          else Inr []) os
      = Inr (replicate (count_list os In) (l, v))"
    by (induction os) (simp_all add: bind_Inr subscript_def)
  then show ?thesis
    by (simp add: visit_Compare_def cong del: if_weak_cong)
qed

subsection \<open>The scan of the module body\<close>

lemma bind_assoc: "bind (bind m f) g = bind m (\<lambda>x. bind (f x) g)"
  by (cases m) (simp_all add: bind_def)

lemma bind_Inr_right: "bind m Inr = m"
  by (cases m) (simp_all add: bind_def)

lemma idiom_at_append:
  "rest = [] \<or> \<not> is_For (hd rest) \<Longrightarrow> idiom_at cur (pre @ rest) = idiom_at cur pre"
  by (cases pre) (auto simp: idiom_at_def)

lemma idiom_at_Cons: "idiom_at cur rest \<Longrightarrow> rest \<noteq> []"
  by (auto simp: idiom_at_def)

lemma visit_Module_loop_append:
  "rest = [] \<or> \<not> is_For (hd rest) \<Longrightarrow>
   visit_Module_loop (pre @ rest)
     = bind (visit_Module_loop pre) (\<lambda>p. bind (visit_Module_loop rest) (\<lambda>r. Inr (p @ r)))"
proof (induction pre rule: visit_Module_loop.induct)
  case 1
  then show ?case by (simp add: bind_Inr bind_Inr_right)
next
  case (2 cur pre0)
  have i: "idiom_at cur (pre0 @ rest) = idiom_at cur pre0"
    using 2(3) by (rule idiom_at_append)
  show ?case
  proof (cases "idiom_at cur pre0")
    case True
    then have ne: "pre0 \<noteq> []" by (rule idiom_at_Cons)
    have ih: "visit_Module_loop (tl pre0 @ rest)
      = bind (visit_Module_loop (tl pre0)) (\<lambda>p. bind (visit_Module_loop rest) (\<lambda>r. Inr (p @ r)))"
      using 2(1)[OF True] 2(3) by simp
    show ?thesis
      using True i ne ih
      by (cases "build_comprehension cur (hd pre0)"; cases "visit_Module_loop (tl pre0)";
          cases "visit_Module_loop rest")
         (simp_all add: bind_Inr bind_Inl)
  next
    case False
    have ih: "visit_Module_loop (pre0 @ rest)
      = bind (visit_Module_loop pre0) (\<lambda>p. bind (visit_Module_loop rest) (\<lambda>r. Inr (p @ r)))"
      using 2(2)[OF False] 2(3) by simp
    show ?thesis
      using False i ih
      by (cases "visit_Module_loop pre0"; cases "visit_Module_loop rest")
         (simp_all add: bind_Inr bind_Inl)
  qed
qed

lemma visit_Module_loop_pair:
  "visit_Module_loop
     (Assign la [Name lv V] (List le [])
      # For lf tgt it [Expr lx (Call lc (Attribute lt (Name ln V) ''append'') (E # es) kws)] els
      # post)
   = bind (visit_Module_loop post) (\<lambda>r.
       Inr (Assign 1 [Name 1 V] (ListComp 1 E [comprehension tgt it [] 0]) # r))"
  by (simp add: idiom_at_def build_comprehension_def subscript_def bind_Inr Let_def)

lemma visit_Module_loop_idiom:
  assumes "visit_Module_loop pre = Inr pre'" and "visit_Module_loop post = Inr post'"
  shows "visit_Module_loop
     (pre @ Assign la [Name lv V] (List le [])
      # For lf tgt it [Expr lx (Call lc (Attribute lt (Name ln V) ''append'') (E # es) kws)] els
      # post)
   = Inr (pre' @ Assign 1 [Name 1 V] (ListComp 1 E [comprehension tgt it [] 0]) # post')"
  using assms
  by (subst visit_Module_loop_append)
     (simp_all add: visit_Module_loop_pair bind_Inr del: visit_Module_loop.simps)

subsection \<open>A second scan changes nothing\<close>

lemma idiom_at_hd:
  "rest \<noteq> [] \<Longrightarrow> rest' \<noteq> [] \<Longrightarrow> hd rest = hd rest' \<Longrightarrow> idiom_at cur rest = idiom_at cur rest'"
  by (simp add: idiom_at_def)

lemma idiom_at_is_For: "idiom_at cur rest \<Longrightarrow> rest \<noteq> [] \<and> is_For (hd rest)"
  by (simp add: idiom_at_def)

lemma idiom_at_is_Assign: "idiom_at cur rest \<Longrightarrow> is_Assign cur \<and> is_List (value' cur)"
  by (simp add: idiom_at_def)

lemma build_comprehension_shape:
  "build_comprehension cur fnode = Inr a \<Longrightarrow> is_Assign a \<and> is_ListComp (value' a)"
  by (auto simp: build_comprehension_def bind_def Let_def split: sum.splits)

lemma visit_Module_loop_head:
  assumes "visit_Module_loop rest = Inr r'"
  shows "(r' = [] \<longleftrightarrow> rest = []) \<and> (r' \<noteq> [] \<and> is_For (hd r') \<longrightarrow> hd r' = hd rest)"
proof (cases rest)
  case Nil
  then show ?thesis using assms by simp
next
  case (Cons x xs)
  show ?thesis
  proof (cases "idiom_at x xs")
    case True
    then obtain a r where a: "build_comprehension x (hd xs) = Inr a" "r' = a # r"
      using assms Cons by (auto simp: bind_def split: sum.splits)
    then have "\<not> is_For a" using build_comprehension_shape[OF a(1)] by (cases a) auto
    then show ?thesis using a Cons by simp
  next
    case False
    then obtain r where "r' = x # r"
      using assms Cons by (auto simp: bind_def split: sum.splits)
    then show ?thesis using Cons by simp
  qed
qed

lemma visit_Module_loop_no_idiom_left:
  "visit_Module_loop b = Inr b' \<Longrightarrow> no_idiom_left b'"
proof (induction b arbitrary: b' rule: visit_Module_loop.induct)
  case 1
  then show ?case by simp
next
  case (2 cur rest)
  show ?case
  proof (cases "idiom_at cur rest")
    case True
    then obtain a r where a: "build_comprehension cur (hd rest) = Inr a"
        "visit_Module_loop (tl rest) = Inr r" "b' = a # r"
      using 2(3) by (auto simp: bind_def split: sum.splits)
    have "\<not> is_List (value' a)" using build_comprehension_shape[OF a(1)] by (cases "value' a") auto
    then have "\<not> idiom_at a r" using idiom_at_is_Assign by blast
    then show ?thesis using 2(1)[OF True a(2)] a(3) by simp
  next
    case False
    then obtain r where r: "visit_Module_loop rest = Inr r" "b' = cur # r"
      using 2(3) by (auto simp: bind_def split: sum.splits)
    have "\<not> idiom_at cur r"
    proof
      assume i: "idiom_at cur r"
      then have "r \<noteq> []" "is_For (hd r)" using idiom_at_is_For by blast+
      then have "rest \<noteq> []" "hd r = hd rest" using visit_Module_loop_head[OF r(1)] by auto
      then have "idiom_at cur rest" using i \<open>r \<noteq> []\<close> idiom_at_hd by metis
      then show False using False by simp
    qed
    then show ?thesis using 2(2)[OF False r(1)] r(2) by simp
  qed
qed

lemma no_idiom_left_fixed: "no_idiom_left b \<Longrightarrow> visit_Module_loop b = Inr b"
  by (induction b) (simp_all add: bind_Inr)

lemma visit_Module_loop_idempotent:
  "visit_Module_loop b = Inr b' \<Longrightarrow> visit_Module_loop b' = Inr b'"
  by (rule no_idiom_left_fixed) (rule visit_Module_loop_no_idiom_left)

subsection \<open>The tests of the rewrite do not read line numbers\<close>

lemma erase_locations_disc [simp]:
  "is_Module (erase_locations n) = is_Module n"
  "is_Assign (erase_locations n) = is_Assign n"
  "is_Name (erase_locations n) = is_Name n"
  "is_List (erase_locations n) = is_List n"
  "is_For (erase_locations n) = is_For n"
  "is_Expr (erase_locations n) = is_Expr n"
  "is_Call (erase_locations n) = is_Call n"
  "is_Attribute (erase_locations n) = is_Attribute n"
  by (cases n; simp)+

lemma erase_locations_sel:
  "is_Module n \<Longrightarrow> body (erase_locations n) = map erase_locations (body n)"
  "is_Assign n \<Longrightarrow> targets (erase_locations n) = map erase_locations (targets n)"
  "is_Assign n \<Longrightarrow> value' (erase_locations n) = erase_locations (value' n)"
  "is_Name n \<Longrightarrow> id' (erase_locations n) = id' n"
  "is_List n \<Longrightarrow> elts (erase_locations n) = map erase_locations (elts n)"
  "is_For n \<Longrightarrow> body (erase_locations n) = map erase_locations (body n)"
  "is_Expr n \<Longrightarrow> value' (erase_locations n) = erase_locations (value' n)"
  "is_Call n \<Longrightarrow> func (erase_locations n) = erase_locations (func n)"
  "is_Attribute n \<Longrightarrow> value' (erase_locations n) = erase_locations (value' n)"
  "is_Attribute n \<Longrightarrow> attr (erase_locations n) = attr n"
  by (cases n; simp)+

lemma nth_0_map: "length xs = Suc 0 \<Longrightarrow> map f xs ! 0 = f (xs ! 0)"
  by (cases xs) simp_all


lemma g1:
  "(is_Assign (erase_locations cur) \<and> length (targets (erase_locations cur)) = 1
      \<and> is_Name (targets (erase_locations cur) ! 0))
   = (is_Assign cur \<and> length (targets cur) = 1 \<and> is_Name (targets cur ! 0))"
  by (cases "is_Assign cur") (auto simp: erase_locations_sel nth_0_map)

lemma g1_id:
  "is_Assign cur \<Longrightarrow> length (targets cur) = 1 \<Longrightarrow> is_Name (targets cur ! 0)
   \<Longrightarrow> id' (targets (erase_locations cur) ! 0) = id' (targets cur ! 0)"
  by (simp add: erase_locations_sel nth_0_map)

lemma g2:
  "is_Assign cur \<Longrightarrow>
   ((is_List (value' (erase_locations cur)) \<and> elts (value' (erase_locations cur)) = [])
      \<and> map erase_locations rest \<noteq> [] \<and> is_For (hd (map erase_locations rest)))
   = ((is_List (value' cur) \<and> elts (value' cur) = []) \<and> rest \<noteq> [] \<and> is_For (hd rest))"
  by (cases rest; cases "is_List (value' cur)") (auto simp: erase_locations_sel)

lemma g3:
  "is_For f \<Longrightarrow>
   (length (body (erase_locations f)) = 1 \<and> is_Expr (body (erase_locations f) ! 0)
      \<and> is_Call (value' (body (erase_locations f) ! 0)))
   = (length (body f) = 1 \<and> is_Expr (body f ! 0) \<and> is_Call (value' (body f ! 0)))"
  by (cases "length (body f) = 1"; cases "is_Expr (body f ! 0)")
     (auto simp: erase_locations_sel nth_0_map)

lemma g4:
  "is_For f \<Longrightarrow> length (body f) = 1 \<Longrightarrow> is_Expr (body f ! 0) \<Longrightarrow> is_Call (value' (body f ! 0))
   \<Longrightarrow> (is_Attribute (func (value' (body (erase_locations f) ! 0)))
         \<and> attr (func (value' (body (erase_locations f) ! 0))) = ''append''
         \<and> is_Name (value' (func (value' (body (erase_locations f) ! 0))))
         \<and> id' (value' (func (value' (body (erase_locations f) ! 0)))) = v)
      = (is_Attribute (func (value' (body f ! 0)))
         \<and> attr (func (value' (body f ! 0))) = ''append''
         \<and> is_Name (value' (func (value' (body f ! 0))))
         \<and> id' (value' (func (value' (body f ! 0)))) = v)"
  by (cases "is_Attribute (func (value' (body f ! 0)))";
      cases "is_Name (value' (func (value' (body f ! 0))))")
     (auto simp: erase_locations_sel nth_0_map)

lemma conj4_cong:
  "P1 = Q1 \<Longrightarrow> (Q1 \<Longrightarrow> P2 = Q2) \<Longrightarrow> (Q1 \<Longrightarrow> Q2 \<Longrightarrow> P3 = Q3)
   \<Longrightarrow> (Q1 \<Longrightarrow> Q2 \<Longrightarrow> Q3 \<Longrightarrow> P4 = Q4)
   \<Longrightarrow> (P1 \<and> P2 \<and> P3 \<and> P4) = (Q1 \<and> Q2 \<and> Q3 \<and> Q4)"
  by blast

lemma idiom_at_erase_locations:
  "idiom_at (erase_locations cur) (map erase_locations rest) = idiom_at cur rest"
  unfolding idiom_at_def
proof (rule conj4_cong, goal_cases)
  case 1
  show ?case by (rule g1)
next
  case 2
  then show ?case by (intro g2) simp
next
  case 3
  then have "hd (map erase_locations rest) = erase_locations (hd rest)" "is_For (hd rest)"
    by (simp_all add: hd_map)
  then show ?case using g3[of "hd rest"] by simp
next
  case 4
  then have h: "hd (map erase_locations rest) = erase_locations (hd rest)" "is_For (hd rest)"
    by (simp_all add: hd_map)
  have v: "id' (targets (erase_locations cur) ! 0) = id' (targets cur ! 0)"
    using 4(1) by (intro g1_id) simp_all
  show ?case
    unfolding h(1) v
    using 4(3) h(2) by (intro g4) simp_all
qed

lemma no_idiom_left_erase_locations:
  "map erase_locations b2 = map erase_locations b1 \<Longrightarrow> no_idiom_left b1 \<Longrightarrow> no_idiom_left b2"
proof (induction b1 arbitrary: b2)
  case Nil
  then show ?case by simp
next
  case (Cons c1 r1)
  from Cons.prems(1) obtain c2 r2 where b2: "b2 = c2 # r2"
      "erase_locations c2 = erase_locations c1"
      "map erase_locations r2 = map erase_locations r1"
    by (cases b2) simp_all
  have "idiom_at c2 r2 = idiom_at (erase_locations c2) (map erase_locations r2)"
    by (rule idiom_at_erase_locations[symmetric])
  also have "\<dots> = idiom_at (erase_locations c1) (map erase_locations r1)"
    by (simp only: b2(2,3))
  also have "\<dots> = idiom_at c1 r1"
    by (rule idiom_at_erase_locations)
  finally have i: "idiom_at c2 r2 = idiom_at c1 r1" .
  have n: "no_idiom_left r1" "\<not> idiom_at c1 r1" using Cons.prems(2) by simp_all
  have "no_idiom_left r2" using Cons.IH[OF b2(3) n(1)] .
  then show ?case using i n(2) b2(1) by simp
qed

lemma is_Module_erase_eq:
  "erase_locations m2 = erase_locations m1 \<Longrightarrow> is_Module m2 = is_Module m1"
proof -
  assume e: "erase_locations m2 = erase_locations m1"
  have "is_Module m2 = is_Module (erase_locations m2)" by (rule erase_locations_disc(1)[symmetric])
  also have "\<dots> = is_Module (erase_locations m1)" by (simp only: e)
  also have "\<dots> = is_Module m1" by (rule erase_locations_disc(1))
  finally show ?thesis .
qed

lemma Transformer_visit_Module:
  "Transformer_visit (Module b) = bind (visit_Module_loop b) (\<lambda>new_body. Inr (Module new_body))"
  by (simp add: Transformer_visit_def visit_Module_def)

lemma Transformer_visit_fixed:
  assumes "Transformer_visit m = Inr m1" and "erase_locations m2 = erase_locations m1"
  shows "Transformer_visit m2 = Inr m2"
proof (cases "is_Module m")
  case False
  then have "m1 = m" using assms(1) by (simp add: Transformer_visit_def)
  then have "\<not> is_Module m2"
    using False is_Module_erase_eq[OF assms(2)] by simp
  then show ?thesis by (simp add: Transformer_visit_def)
next
  case True
  then obtain b where b: "m = Module b" by (cases m) simp_all
  obtain b1 where b1: "visit_Module_loop b = Inr b1" "m1 = Module b1"
    using assms(1) unfolding b Transformer_visit_Module
    by (cases "visit_Module_loop b") (simp_all add: bind_Inr bind_Inl)
  have "is_Module m2" using is_Module_erase_eq[OF assms(2)] b1(2) by simp
  then obtain b2 where b2: "m2 = Module b2" by (cases m2) simp_all
  have "erase_locations (Module b2) = erase_locations (Module b1)"
    using assms(2) unfolding b2 b1(2) .
  then have "map erase_locations b2 = map erase_locations b1" by simp
  then have "no_idiom_left b2"
    using visit_Module_loop_no_idiom_left[OF b1(1)] by (rule no_idiom_left_erase_locations)
  then have "visit_Module_loop b2 = Inr b2" by (rule no_idiom_left_fixed)
  then show ?thesis unfolding b2 Transformer_visit_Module by (simp add: bind_Inr)
qed

section \<open>Parse failures in the analyzer\<close>

text \<open>
  C3. When the parser rejects the input with a SyntaxError whose message is not empty,
  \<^verbatim>\<open>analyze_code\<close> returns a report with \<^verbatim>\<open>ok\<close> false and that message as the parse
  error, and every other key of the report is absent.
\<close>

theorem analyze_code_parse_failure:
  assumes "ast_parse env code_str = Inl (SyntaxError msg)" and "msg \<noteq> []"
  shows "\<exists>r. analyze_code env code_str = Inr r \<and> \<not> ok r \<and> parse_error r = Some msg
           \<and> msg \<noteq> [] \<and> detections r = None \<and> time_estimate r = None
           \<and> time_details r = None \<and> space_estimate r = None \<and> space_details r = None"
  using assms by (simp add: analyze_code_def)

theorem analyze_code_parse_failure_witness:
  "ast_parse rejecting_services ''x ='' = Inl (SyntaxError ''invalid syntax (<unknown>, line 1)'')
   \<and> ''invalid syntax (<unknown>, line 1)'' \<noteq> []
   \<and> (\<exists>r. analyze_code rejecting_services ''x ='' = Inr r \<and> \<not> ok r
          \<and> parse_error r = Some ''invalid syntax (<unknown>, line 1)''
          \<and> detections r = None \<and> time_estimate r = None \<and> time_details r = None
          \<and> space_estimate r = None \<and> space_details r = None)"
proof -
  have p: "ast_parse rejecting_services ''x ='' = Inl (SyntaxError ''invalid syntax (<unknown>, line 1)'')"
    by (simp add: rejecting_services_def)
  have n: "''invalid syntax (<unknown>, line 1)'' \<noteq> []" by simp
  show ?thesis using analyze_code_parse_failure [OF p n] p by simp
qed

section \<open>Loop nesting and the time summary\<close>

text \<open>
  C7. For every input that parses, \<^verbatim>\<open>analyze_code\<close> returns a report whose
  \<^verbatim>\<open>max_loop_nesting\<close> is the greatest depth of lexically nested for- and while-loops
  of the tree; \<open>k\<close> nested loops and nothing else give \<open>k\<close>; and the time summary
  contains \<^verbatim>\<open>O(n) or O(1)\<close> at depth 0, \<^verbatim>\<open>O(n)\<close> at depth 1 and \<^verbatim>\<open>O(n^k)\<close> at a depth
  \<open>k\<close> of 2 or more.
\<close>

theorem max_loop_nesting_and_time_summary:
  assumes "ast_parse env code_str = Inr module"
  shows "\<exists>r s d. analyze_code env code_str = Inr r
           \<and> time_estimate r = Some s \<and> time_details r = Some d
           \<and> td_max_loop_nesting d = max_loop_nesting module
           \<and> max_loop_nesting module = int (loop_depth module)
           \<and> max_loop_nesting (Module [nested_loops k]) = int k
           \<and> (loop_depth module = 0 \<longrightarrow> sublist ''O(n) or O(1)'' s)
           \<and> (loop_depth module = 1 \<longrightarrow> sublist ''O(n)'' s)
           \<and> (2 \<le> loop_depth module \<longrightarrow>
                 sublist (''O(n^'' @ str_int (int (loop_depth module)) @ '')'') s)"
proof -
  obtain s d where t: "estimate_time_complexity module = Inr (s, d)"
    using estimate_time_complexity_total by blast
  obtain r where r: "analyze_code env code_str = Inr r" "time_estimate r = Some s"
      "time_details r = Some d"
    using analyze_code_parsed[OF assms] t by auto
  have "max_loop_nesting (Module [nested_loops k]) = int k"
    by (simp add: max_loop_nesting_loop_depth loop_depth_Module loop_depth_nested)
  then show ?thesis
    using r time_estimate_depth[OF t] max_loop_nesting_loop_depth[of module] by auto
qed

theorem max_loop_nesting_and_time_summary_witness:
  "ast_parse example_services loop_free_source = Inr loop_free_module
   \<and> ast_parse example_services canonical_source = Inr canonical_module
   \<and> ast_parse example_services two_loops_source = Inr two_loops_module
   \<and> (\<exists>r s d. analyze_code example_services loop_free_source = Inr r
          \<and> time_estimate r = Some s \<and> time_details r = Some d
          \<and> td_max_loop_nesting d = 0 \<and> sublist ''O(n) or O(1)'' s)
   \<and> (\<exists>r s d. analyze_code example_services canonical_source = Inr r
          \<and> time_estimate r = Some s \<and> time_details r = Some d
          \<and> td_max_loop_nesting d = 1 \<and> sublist ''O(n)'' s)
   \<and> (\<exists>r s d. analyze_code example_services two_loops_source = Inr r
          \<and> time_estimate r = Some s \<and> time_details r = Some d
          \<and> td_max_loop_nesting d = 2 \<and> sublist ''O(n^2)'' s)"
proof -
  have two: "''O(n^'' @ str_int (int 2) @ '')'' = ''O(n^2)''"
    by (simp add: str_int_def str_nat.simps digit_char_def)
  have a: "\<exists>r s d. analyze_code example_services loop_free_source = Inr r
          \<and> time_estimate r = Some s \<and> time_details r = Some d
          \<and> td_max_loop_nesting d = 0 \<and> sublist ''O(n) or O(1)'' s"
    using max_loop_nesting_and_time_summary [OF example_parse(3), of 0]
    by (auto simp: example_loop_depth)
  have b: "\<exists>r s d. analyze_code example_services canonical_source = Inr r
          \<and> time_estimate r = Some s \<and> time_details r = Some d
          \<and> td_max_loop_nesting d = 1 \<and> sublist ''O(n)'' s"
    using max_loop_nesting_and_time_summary [OF example_parse(1), of 0]
    by (auto simp: example_loop_depth)
  have c: "\<exists>r s d. analyze_code example_services two_loops_source = Inr r
          \<and> time_estimate r = Some s \<and> time_details r = Some d
          \<and> td_max_loop_nesting d = 2 \<and> sublist ''O(n^2)'' s"
    using max_loop_nesting_and_time_summary [OF example_parse(4), of 0] two
    by (auto simp: example_loop_depth)
  show ?thesis using a b c example_parse by simp
qed

section \<open>Sort calls\<close>

text \<open>
  C8. A call of the free function \<^verbatim>\<open>sorted\<close> and a call of a method named \<^verbatim>\<open>sort\<close>
  each give one finding; in the report of an input that parses, the findings of type
  \<^verbatim>\<open>sort_in_loop\<close> are one for each sort call of the tree, in document order, and the
  time summary contains the line number of every sort call.
\<close>

theorem sort_calls_reported:
  assumes "ast_parse env code_str = Inr module"
  shows "visit_Call_sorted (Call l (Name l' ''sorted'') as ks) = Inr [l]
       \<and> visit_Call_sorted (Call l (Attribute l' v ''sort'') as ks) = Inr [l]
       \<and> (\<exists>r s ds. analyze_code env code_str = Inr r
             \<and> time_estimate r = Some s \<and> detections r = Some ds
             \<and> filter (\<lambda>d. dtype d = ''sort_in_loop'') ds
                 = map (\<lambda>n. Detection ''sort_in_loop'' (lineno n) None
                          ''Move sorting outside loop to avoid O(n log n) each iteration.'')
                     (filter is_sort_call (preorder module))
             \<and> (\<forall>n \<in> set (preorder module). is_sort_call n \<longrightarrow> sublist (str_int (lineno n)) s))"
proof -
  obtain s d where t: "estimate_time_complexity module = Inr (s, d)"
    using estimate_time_complexity_total by blast
  obtain r ds where r: "analyze_code env code_str = Inr r" "detections r = Some ds"
      "time_estimate r = Some s"
      "filter (\<lambda>d. dtype d = ''sort_in_loop'') ds
              = map (\<lambda>lineno. Detection ''sort_in_loop'' lineno None
                      ''Move sorting outside loop to avoid O(n log n) each iteration.'')
                  (projr (find_sorted_in_loops module))"
    using analyze_code_detections[OF assms] t by auto
  have "\<forall>n \<in> set (preorder module). is_sort_call n \<longrightarrow> sublist (str_int (lineno n)) s"
    using time_estimate_sort_lines[OF t] by blast
  moreover have "filter (\<lambda>d. dtype d = ''sort_in_loop'') ds
                 = map (\<lambda>n. Detection ''sort_in_loop'' (lineno n) None
                          ''Move sorting outside loop to avoid O(n log n) each iteration.'')
                     (filter is_sort_call (preorder module))"
    using r(4) by (simp add: find_sorted_in_loops_eq o_def)
  moreover have "visit_Call_sorted (Call l (Name l' ''sorted'') as ks) = Inr [l]"
    "visit_Call_sorted (Call l (Attribute l' v ''sort'') as ks) = Inr [l]"
    by (simp_all add: visit_Call_sorted_def)
  ultimately show ?thesis using r by blast
qed

theorem sort_calls_reported_witness:
  "ast_parse (table_services [(two_sorts_source, two_sorts_module)]) two_sorts_source
     = Inr two_sorts_module
   \<and> (\<exists>r s ds. analyze_code (table_services [(two_sorts_source, two_sorts_module)])
                  two_sorts_source = Inr r
          \<and> time_estimate r = Some s \<and> detections r = Some ds
          \<and> filter (\<lambda>d. dtype d = ''sort_in_loop'') ds
              = [Detection ''sort_in_loop'' 1 None
                   ''Move sorting outside loop to avoid O(n log n) each iteration.'',
                 Detection ''sort_in_loop'' 2 None
                   ''Move sorting outside loop to avoid O(n log n) each iteration.'']
          \<and> sublist ''1'' s \<and> sublist ''2'' s)"
proof -
  have p: "ast_parse (table_services [(two_sorts_source, two_sorts_module)]) two_sorts_source
      = Inr two_sorts_module"
    by (simp add: table_services_def)
  have m: "Call 1 (Name 1 ''sorted'') [Name 1 ''xs''] [] \<in> set (preorder two_sorts_module)"
    "Call 2 (Attribute 2 (Name 2 ''xs'') ''sort'') [] [] \<in> set (preorder two_sorts_module)"
    by (simp_all add: two_sorts_module_def preorder.simps)
  have c: "is_sort_call (Call 1 (Name 1 ''sorted'') [Name 1 ''xs''] [])"
    "is_sort_call (Call 2 (Attribute 2 (Name 2 ''xs'') ''sort'') [] [])"
    by (simp_all add: is_sort_call_def)
  have d: "str_int 1 = ''1''" "str_int 2 = ''2''"
    by (simp_all add: str_int_def str_nat.simps digit_char_def)
  from sort_calls_reported [OF p]
  obtain r s ds where r: "analyze_code (table_services [(two_sorts_source, two_sorts_module)])
                  two_sorts_source = Inr r" "time_estimate r = Some s" "detections r = Some ds"
     "filter (\<lambda>d. dtype d = ''sort_in_loop'') ds
                 = map (\<lambda>n. Detection ''sort_in_loop'' (lineno n) None
                          ''Move sorting outside loop to avoid O(n log n) each iteration.'')
                     (filter is_sort_call (preorder two_sorts_module))"
     "\<forall>n \<in> set (preorder two_sorts_module). is_sort_call n \<longrightarrow> sublist (str_int (lineno n)) s"
    by blast
  have "sublist ''1'' s" "sublist ''2'' s"
    using r(5) m c d by fastforce+
  then show ?thesis using p r by (simp add: two_sorts_preorder)
qed

section \<open>Chained membership tests\<close>

text \<open>
  C10. For a comparison anywhere in the tree whose first comparator is a bare name, the
  membership detector emits one finding for each \<^verbatim>\<open>in\<close> operator of the chain, and every
  one of them names that first comparator.
\<close>

theorem membership_chained_in:
  assumes "Compare l x os (Name l' v # cs) \<in> set (preorder module)"
  shows "visit_Compare (Compare l x os (Name l' v # cs))
           = Inr (replicate (count_list os In) (l, v))
       \<and> (\<exists>pre post. detect_membership_of_list_in_loops module
             = Inr (pre @ replicate (count_list os In) (l, v) @ post))"
proof -
  obtain pre post where
    "concat (map (\<lambda>n. projr (visit_Compare n)) (preorder module))
       = pre @ projr (visit_Compare (Compare l x os (Name l' v # cs))) @ post"
    using concat_map_split[OF assms] by blast
  then show ?thesis
    by (auto simp: detect_membership_of_list_in_loops_total visit_Compare_chain)
qed

theorem membership_chained_in_witness:
  "Compare 1 (Name 1 ''a'') [In, In] [Name 1 ''b'', Name 1 ''c''] \<in> set (preorder chained_in_module)
   \<and> visit_Compare (Compare 1 (Name 1 ''a'') [In, In] [Name 1 ''b'', Name 1 ''c''])
       = Inr [(1, ''b''), (1, ''b'')]
   \<and> (\<exists>pre post. detect_membership_of_list_in_loops chained_in_module
         = Inr (pre @ [(1, ''b''), (1, ''b'')] @ post))"
proof -
  have m: "Compare 1 (Name 1 ''a'') [In, In] [Name 1 ''b'', Name 1 ''c'']
      \<in> set (preorder chained_in_module)"
    by (simp add: chained_in_module_def preorder.simps)
  show ?thesis
    using membership_chained_in [OF m] m by (simp add: numeral_2_eq_2)
qed

section \<open>More than one argument of append\<close>

text \<open>
  C9. When the call of \<^verbatim>\<open>V.append\<close> has two or more arguments the pair is rewritten all
  the same, and the element of the comprehension is the first argument; the other
  arguments do not occur in the new statement.
\<close>

theorem refactor_uses_first_append_argument:
  assumes "ast_parse env code_str =
      Inr (Module (pre @ Assign la [Name lv V] (List le [])
             # For lf tgt it
                 [Expr lx (Call lc (Attribute lt (Name ln V) ''append'') (E # E2 # es) kws)] els
             # post))"
    and "visit_Module_loop pre = Inr pre'"
    and "visit_Module_loop post = Inr post'"
    and "safe_unparse env
           (Module (pre' @ Assign 1 [Name 1 V] (ListComp 1 E [comprehension tgt it [] 0]) # post'))
         = Inr text"
  shows "Transformer_visit
           (Module (pre @ Assign la [Name lv V] (List le [])
             # For lf tgt it
                 [Expr lx (Call lc (Attribute lt (Name ln V) ''append'') (E # E2 # es) kws)] els
             # post))
         = Inr (Module (pre' @ Assign 1 [Name 1 V] (ListComp 1 E [comprehension tgt it [] 0])
                  # post'))
       \<and> auto_refactor env code_str = Inr (best_effort_format env text)"
proof -
  have t: "Transformer_visit
           (Module (pre @ Assign la [Name lv V] (List le [])
             # For lf tgt it
                 [Expr lx (Call lc (Attribute lt (Name ln V) ''append'') (E # E2 # es) kws)] els
             # post))
         = Inr (Module (pre' @ Assign 1 [Name 1 V] (ListComp 1 E [comprehension tgt it [] 0])
                  # post'))"
    by (simp add: Transformer_visit_def visit_Module_def bind_Inr
        visit_Module_loop_idiom[OF assms(2,3)] del: visit_Module_loop.simps)
  have "auto_refactor env code_str = Inr (best_effort_format env text)"
    unfolding auto_refactor_def using assms(1,4) t by (simp add: bind_Inr)
  then show ?thesis using t by simp
qed

theorem refactor_uses_first_append_argument_witness:
  "ast_parse two_args_services two_args_source = Inr two_args_module
   \<and> visit_Module_loop [] = Inr []
   \<and> safe_unparse two_args_services two_args_result = Inr ''r = [x for x in xs]''
   \<and> Transformer_visit two_args_module = Inr two_args_result
   \<and> auto_refactor two_args_services two_args_source = Inr ''r = [x for x in xs]''"
proof -
  have p0: "ast_parse two_args_services two_args_source = Inr two_args_module"
    by (simp add: two_args_services_def table_services_def)
  have p: "ast_parse two_args_services two_args_source =
      Inr (Module ([] @ Assign 1 [Name 1 ''r''] (List 1 [])
             # For 2 (Name 2 ''x'') (Name 2 ''xs'')
                 [Expr 3 (Call 3 (Attribute 3 (Name 3 ''r'') ''append'')
                     (Name 3 ''x'' # Constant 3 ''1'' # []) [])] []
             # []))"
    using p0 by (simp add: two_args_module_def)
  have l: "visit_Module_loop [] = Inr []" by simp
  have u0: "safe_unparse two_args_services two_args_result = Inr ''r = [x for x in xs]''"
    by (simp add: safe_unparse_def two_args_services_def table_services_def
        two_args_module_def two_args_result_def two_args_source_def)
  have u: "safe_unparse two_args_services
           (Module ([] @ Assign 1 [Name 1 ''r'']
              (ListComp 1 (Name 3 ''x'') [comprehension (Name 2 ''x'') (Name 2 ''xs'') [] 0]) # []))
         = Inr ''r = [x for x in xs]''"
    using u0 by (simp add: two_args_result_def)
  have f: "best_effort_format two_args_services ''r = [x for x in xs]'' = ''r = [x for x in xs]''"
    by (simp add: best_effort_format_def two_args_services_def table_services_def)
  show ?thesis
    using refactor_uses_first_append_argument [OF p l l u] p0 u0 f l
    by (simp add: two_args_module_def two_args_result_def del: visit_Module_loop.simps)
qed

section \<open>An exception that is not a parse error\<close>

text \<open>
  C2. The claim is that \<^verbatim>\<open>auto_refactor\<close> fails with a parse error only. On the valid
  text \<^verbatim>\<open>a = []\<close> / \<^verbatim>\<open>for x in y:\<close> / \<^verbatim>\<open>    a.append()\<close> the parser returns a tree and
  \<^verbatim>\<open>auto_refactor\<close> raises IndexError, from \<^verbatim>\<open>call.args[0]\<close> on line 236.
\<close>

theorem refactor_empty_append_raises:
  "ast_parse (table_services [(empty_append_source, empty_append_module)]) empty_append_source
     = Inr empty_append_module
   \<and> auto_refactor (table_services [(empty_append_source, empty_append_module)])
        empty_append_source = Inl IndexError"
  by (simp add: auto_refactor_def table_services_def empty_append_module_def bind_Inr bind_Inl
      Transformer_visit_def visit_Module_def idiom_at_def build_comprehension_def subscript_def)

section \<open>A nested idiom that does not survive\<close>

text \<open>
  C5. The claim is that the idiom in a nested block is left as it is. When the loop of a
  rewritten top-level pair has an \<^verbatim>\<open>else\<close> clause, the transformer drops the clause: the
  idiom nested in it is in the tree before the rewrite and in no node of the tree after
  it, and the text returned is \<^verbatim>\<open>a = [x for x in xs]\<close> alone.
\<close>

theorem refactor_drops_else_block:
  "ast_parse (table_services [(for_else_source, for_else_module),
                (''a = [x for x in xs]'', for_else_result)]) for_else_source = Inr for_else_module
   \<and> set nested_idiom \<subseteq> set (preorder for_else_module)
   \<and> Transformer_visit for_else_module = Inr for_else_result
   \<and> set nested_idiom \<inter> set (preorder for_else_result) = {}
   \<and> auto_refactor (table_services [(for_else_source, for_else_module),
                (''a = [x for x in xs]'', for_else_result)]) for_else_source
       = Inr ''a = [x for x in xs]''"
proof -
  have t: "Transformer_visit for_else_module = Inr for_else_result"
    by (simp add: for_else_module_def for_else_result_def Transformer_visit_def visit_Module_def
        idiom_at_def build_comprehension_def subscript_def bind_Inr)
  have a: "set nested_idiom \<subseteq> set (preorder for_else_module)"
    by (simp add: for_else_module_def nested_idiom_def preorder.simps)
  have b: "set nested_idiom \<inter> set (preorder for_else_result) = {}"
    by (simp add: for_else_result_def nested_idiom_def preorder.simps)
  have p: "ast_parse (table_services [(for_else_source, for_else_module),
                (''a = [x for x in xs]'', for_else_result)]) for_else_source = Inr for_else_module"
    by (simp add: table_services_def)
  have "auto_refactor (table_services [(for_else_source, for_else_module),
                (''a = [x for x in xs]'', for_else_result)]) for_else_source
       = Inr ''a = [x for x in xs]''"
    unfolding auto_refactor_def using p t
    by (simp add: bind_Inr safe_unparse_def best_effort_format_def table_services_def
        for_else_module_def for_else_result_def nested_idiom_def)
  then show ?thesis using t a b p by simp
qed

section \<open>What escapes the analyzer\<close>

text \<open>
  C4. The claim is that no exception escapes \<^verbatim>\<open>analyze_code\<close> for any string. Line 149
  catches SyntaxError only: on the string of one lone surrogate the parser raises
  UnicodeEncodeError, and \<^verbatim>\<open>analyze_code\<close> raises it too.
\<close>

theorem analyze_code_escapes_counterexample:
  "analyze_code surrogate_services lone_surrogate
     = Inl (OtherError ''UnicodeEncodeError: surrogates not allowed'')"
  by (simp add: analyze_code_def surrogate_services_def)

text \<open>
  C4, as amended. \<^verbatim>\<open>analyze_code\<close> returns a report with \<^verbatim>\<open>ok\<close> true when the parser
  returns a tree, and a report with \<^verbatim>\<open>ok\<close> false and the parser's message when the
  parser raises SyntaxError; an exception of the parser that is not a SyntaxError is
  raised by \<^verbatim>\<open>analyze_code\<close> as it is, for the caller to catch; and each detector and
  each estimator returns on every tree.
\<close>

theorem analyze_code_returns_or_propagates:
  "(ast_parse env code_str = Inr module \<longrightarrow> (\<exists>r. analyze_code env code_str = Inr r \<and> ok r))
   \<and> (ast_parse env code_str = Inl (SyntaxError msg) \<longrightarrow>
        (\<exists>r. analyze_code env code_str = Inr r \<and> \<not> ok r \<and> parse_error r = Some msg))
   \<and> (ast_parse env code_str = Inl e \<and> (\<forall>msg. e \<noteq> SyntaxError msg) \<longrightarrow>
        analyze_code env code_str = Inl e)
   \<and> (\<exists>a. find_string_concat_in_loops m = Inr a)
   \<and> (\<exists>a. find_list_append_patterns m = Inr a)
   \<and> (\<exists>a. find_range_len_patterns m = Inr a)
   \<and> (\<exists>a. detect_membership_of_list_in_loops m = Inr a)
   \<and> (\<exists>a. find_sorted_in_loops m = Inr a)
   \<and> (\<exists>a. estimate_time_complexity m = Inr a)
   \<and> (\<exists>a. estimate_space_complexity m = Inr a)"
proof -
  have 1: "\<exists>r. analyze_code env code_str = Inr r \<and> ok r"
    if "ast_parse env code_str = Inr module"
    using analyze_code_parsed[OF that] by blast
  have 2: "\<exists>r. analyze_code env code_str = Inr r \<and> \<not> ok r \<and> parse_error r = Some msg"
    if "ast_parse env code_str = Inl (SyntaxError msg)"
    using that by (simp add: analyze_code_def)
  have 3: "analyze_code env code_str = Inl e"
    if "ast_parse env code_str = Inl e" and "\<forall>msg. e \<noteq> SyntaxError msg"
    using that by (cases e) (simp_all add: analyze_code_def)
  have 4: "\<exists>a. estimate_time_complexity m = Inr a"
    using estimate_time_complexity_total by blast
  have 5: "\<exists>a. estimate_space_complexity m = Inr a"
    using estimate_space_complexity_total by blast
  show ?thesis
    using 1 2 3 4 5
    by (simp add: find_string_concat_in_loops_total find_list_append_patterns_total
        find_range_len_patterns_total find_sorted_in_loops_total
        detect_membership_of_list_in_loops_total)
qed

theorem analyze_code_returns_or_propagates_witness:
  "ast_parse example_services canonical_source = Inr canonical_module
   \<and> (\<exists>r. analyze_code example_services canonical_source = Inr r \<and> ok r)
   \<and> ast_parse example_services ''x ='' = Inl (SyntaxError ''invalid syntax (<unknown>, line 1)'')
   \<and> (\<exists>r. analyze_code example_services ''x ='' = Inr r \<and> \<not> ok r
          \<and> parse_error r = Some ''invalid syntax (<unknown>, line 1)'')
   \<and> ast_parse surrogate_services lone_surrogate
       = Inl (OtherError ''UnicodeEncodeError: surrogates not allowed'')
   \<and> analyze_code surrogate_services lone_surrogate
       = Inl (OtherError ''UnicodeEncodeError: surrogates not allowed'')
   \<and> (\<exists>a. find_range_len_patterns canonical_module = Inr a)"
proof -
  have p: "ast_parse example_services ''x ='' = Inl (SyntaxError ''invalid syntax (<unknown>, line 1)'')"
    by (simp add: example_services_def table_services_def canonical_source_def
        comprehension_source_def loop_free_source_def two_loops_source_def)
  have q: "ast_parse surrogate_services lone_surrogate
      = Inl (OtherError ''UnicodeEncodeError: surrogates not allowed'')"
    by (simp add: surrogate_services_def)
  have n: "\<forall>msg. OtherError ''UnicodeEncodeError: surrogates not allowed'' \<noteq> SyntaxError msg"
    by simp
  show ?thesis
    using analyze_code_returns_or_propagates
            [of example_services canonical_source canonical_module _ _ canonical_module]
      analyze_code_returns_or_propagates
            [of example_services "''x =''" _ "''invalid syntax (<unknown>, line 1)''"]
      analyze_code_returns_or_propagates
            [of surrogate_services lone_surrogate _ _
               "OtherError ''UnicodeEncodeError: surrogates not allowed''"]
      p q n example_parse(1)
    by blast
qed

section \<open>An output that does not parse\<close>

text \<open>
  C1. The claim is that the pair is replaced by the comprehension and that the output
  parses again. On \<^verbatim>\<open>r = []\<close> / \<^verbatim>\<open>for x in xs:\<close> / \<^verbatim>\<open>    r.append(*x)\<close> the pair is replaced:
  the transformer takes the starred argument as the element, and \<^verbatim>\<open>auto_refactor\<close>
  returns \<^verbatim>\<open>r = [*x for x in xs]\<close>, a text that the parser rejects.
\<close>

theorem refactor_starred_output_does_not_parse:
  "ast_parse starred_services starred_source = Inr starred_module
   \<and> Transformer_visit starred_module = Inr starred_result
   \<and> auto_refactor starred_services starred_source = Inr ''r = [*x for x in xs]''
   \<and> ast_parse starred_services ''r = [*x for x in xs]''
       = Inl (SyntaxError
               ''iterable unpacking cannot be used in comprehension (<unknown>, line 1)'')"
proof -
  have p: "ast_parse starred_services starred_source = Inr starred_module"
    by (simp add: starred_services_def)
  have t: "Transformer_visit starred_module = Inr starred_result"
    by (simp add: starred_module_def starred_result_def Transformer_visit_def visit_Module_def
        idiom_at_def build_comprehension_def subscript_def bind_Inr)
  have u: "safe_unparse starred_services starred_result = Inr ''r = [*x for x in xs]''"
    by (simp add: safe_unparse_def starred_services_def starred_text_def)
  have f: "best_effort_format starred_services ''r = [*x for x in xs]'' = ''r = [*x for x in xs]''"
    by (simp add: best_effort_format_def starred_services_def)
  have a: "auto_refactor starred_services starred_source = Inr ''r = [*x for x in xs]''"
    unfolding auto_refactor_def using p t u f by (simp add: bind_Inr)
  have r: "ast_parse starred_services ''r = [*x for x in xs]''
       = Inl (SyntaxError
               ''iterable unpacking cannot be used in comprehension (<unknown>, line 1)'')"
    by (simp add: starred_services_def starred_source_def)
  show ?thesis using p t a r by simp
qed

section \<open>A second run of the rewrite\<close>

text \<open>
  C6. The claim is that a second run returns the output of the first, up to layout.
  The first run on \<^verbatim>\<open>r = []\<close> / \<^verbatim>\<open>for x in xs:\<close> / \<^verbatim>\<open>    r.append(*x)\<close> returns
  \<^verbatim>\<open>r = [*x for x in xs]\<close>, and the second run, on that text, raises SyntaxError.
\<close>

theorem refactor_twice_raises:
  "auto_refactor starred_services starred_source = Inr starred_text
   \<and> auto_refactor starred_services starred_text
       = Inl (SyntaxError
               ''iterable unpacking cannot be used in comprehension (<unknown>, line 1)'')"
proof -
  have t: "Transformer_visit starred_module = Inr starred_result"
    by (simp add: starred_module_def starred_result_def Transformer_visit_def visit_Module_def
        idiom_at_def build_comprehension_def subscript_def bind_Inr)
  have u: "safe_unparse starred_services starred_result = Inr starred_text"
    by (simp add: safe_unparse_def starred_services_def)
  have f: "best_effort_format starred_services starred_text = starred_text"
    by (simp add: best_effort_format_def starred_services_def)
  have a: "auto_refactor starred_services starred_source = Inr starred_text"
    unfolding auto_refactor_def using t u f by (simp add: bind_Inr starred_services_def)
  have b: "auto_refactor starred_services starred_text
       = Inl (SyntaxError
               ''iterable unpacking cannot be used in comprehension (<unknown>, line 1)'')"
    by (simp add: auto_refactor_def starred_services_def starred_text_def starred_source_def
        bind_Inl)
  show ?thesis using a b by simp
qed

end
